theory Spec2Isabelle
  imports Complex_Main "HOL-Library.Monad_Syntax"
begin

section \<open>The gridding convolution of FGG_Convolution3D_type2.c\<close>

text \<open>
  The C function \<open>mexFunction\<close> of \<open>src/NUFFT/FGG_Convolution3D_type2.c\<close> is embedded
  as a function in the option monad.

  \<^item> A C \<open>double\<close> is a \<open>real\<close>.  The arithmetic that decides which grid cells a knot
    reads, the product and the quotient under the \<open>floor\<close> of lines 135-137, is rounded
    to the nearest binary64 number, ties to even, once per operation, as IEEE 754
    arithmetic rounds it (\<open>dbl\<close>).  The arithmetic on
    the weights is exact: the rounding of a weight, overflow to infinity and NaN are
    outside the model, and a division whose divisor is zero (which in C yields an
    infinity or a NaN, after which the run continues) ends the run with \<open>None\<close>.
    The index arithmetic of lines 189-213 is exact as well: for integer grid extents
    every value there is an integer or half an integer far below \<open>2^53\<close>.
  \<^item> A C \<open>int\<close> has 32 bits.  A conversion of a \<open>double\<close> to an \<open>int\<close> truncates toward
    zero (\<open>c_int\<close>); a conversion or an \<open>int\<close> operation whose result is not an \<open>int\<close>
    (undefined behaviour in C) ends the run with \<open>None\<close> (\<open>to_int\<close>, \<open>ck\<close>).  The operations
    on the loop counters and on the offsets into the scratch buffers stay within
    \<open>2 * M_sp\<close> and \<open>M\<close>, which are checked, and carry no check of their own.
  \<^item> An array is a list; a read or write outside its bounds (undefined behaviour in C)
    ends the run with \<open>None\<close>.
  \<^item> The contents of freshly allocated memory are arbitrary: they are a parameter
    \<open>uninit\<close> of the run.
\<close>

subsection \<open>Numbers, arrays and loops\<close>

text \<open>
  The constant of line 26 denotes the binary64 number nearest to the decimal
  \<open>3.141592653589793\<close>, which is \<open>884279719003555 / 2^48\<close>.
\<close>

definition PI :: real where
  "PI = 884279719003555 / 281474976710656"

text \<open>
  Rounding to the nearest binary64 number, ties to the even significand: \<open>rne\<close> rounds
  to the nearest integer, \<open>dbl\<close> scales by the unit in the last place, which is
  \<open>2^(e - 52)\<close> for a magnitude in \<open>[2^e, 2^(e + 1))\<close> and \<open>2^(-1074)\<close> below \<open>2^(-1022)\<close>.
  A magnitude of \<open>2^1024\<close> or more, an infinity in C, stays a finite number here that no
  \<open>int\<close> holds.
\<close>

definition rne :: "real \<Rightarrow> int" where
  "rne r = (let f = \<lfloor>r\<rfloor>; d = r - of_int f
            in if d < 1 / 2 then f else if 1 / 2 < d then f + 1
               else if even f then f else f + 1)"

definition dbl :: "real \<Rightarrow> real" where
  "dbl v = (if v = 0 then 0
            else let u = 2 powi (max \<lfloor>log 2 \<bar>v\<bar>\<rfloor> (- 1022) - 52)
                 in of_int (rne (v / u)) * u)"

definition c_int :: "real \<Rightarrow> int" where
  "c_int v = (if 0 \<le> v then \<lfloor>v\<rfloor> else \<lceil>v\<rceil>)"

definition int_ok :: "int \<Rightarrow> bool" where
  "int_ok k = (- 2147483648 \<le> k \<and> k \<le> 2147483647)"

definition ck :: "int \<Rightarrow> int option" where
  "ck k = (if int_ok k then Some k else None)"

definition to_int :: "real \<Rightarrow> int option" where
  "to_int v = ck (c_int v)"

definition c_bool :: "bool \<Rightarrow> int" where
  "c_bool b = (if b then 1 else 0)"

definition fdiv :: "real \<Rightarrow> real \<Rightarrow> real option" where
  "fdiv a b = (if b = 0 then None else Some (a / b))"

definition rd :: "real list \<Rightarrow> int \<Rightarrow> real option" where
  "rd a j = (if 0 \<le> j \<and> j < int (length a) then Some (a ! nat j) else None)"

definition wr :: "real list \<Rightarrow> int \<Rightarrow> real \<Rightarrow> real list option" where
  "wr a j v = (if 0 \<le> j \<and> j < int (length a) then Some (a[nat j := v]) else None)"

definition malloc :: "int \<Rightarrow> (nat \<Rightarrow> real) \<Rightarrow> real list" where
  "malloc n junk = map junk [0 ..< nat n]"

text \<open>A \<open>for\<close> loop whose counter runs through the given values, in that order.\<close>

fun for_loop :: "int list \<Rightarrow> (int \<Rightarrow> 's \<Rightarrow> 's option) \<Rightarrow> 's \<Rightarrow> 's option" where
  "for_loop [] body s = Some s"
| "for_loop (j # js) body s =
     (case body j s of None \<Rightarrow> None | Some s' \<Rightarrow> for_loop js body s')"

subsection \<open>Inputs, parameters and mutable state\<close>

text \<open>The right-hand sides \<open>prhs[0..6]\<close>; \<open>knots_M\<close> is \<open>mxGetM(knotspoint)\<close>.\<close>

record inputs =
  ftaur :: "real list"
  ftaui :: "real list"
  knots_M :: nat
  knots :: "real list"
  E_3x :: "real list"
  E_3y :: "real list"
  E_3z :: "real list"
  Scales :: "real list"

text \<open>The locals read from \<open>Scales\<close> (lines 93-99).\<close>

record params =
  M_sp :: int
  taux :: real
  tauy :: real
  tauz :: real
  M_rx :: real
  M_ry :: real
  M_rz :: real

definition N2 :: "params \<Rightarrow> int" where
  "N2 p = c_int (M_rx p * M_ry p)"

definition M_rxd2 :: "params \<Rightarrow> real" where
  "M_rxd2 p = M_rx p / 2"

definition M_ryd2 :: "params \<Rightarrow> real" where
  "M_ryd2 p = M_ry p / 2"

definition M_rzd2 :: "params \<Rightarrow> real" where
  "M_rzd2 p = M_rz p / 2"

definition TwoM_sp :: "params \<Rightarrow> int" where
  "TwoM_sp p = 2 * M_sp p"

definition read_Scales :: "real list \<Rightarrow> params option" where
  "read_Scales sc = do {
     s0 \<leftarrow> rd sc 0;
     s1 \<leftarrow> rd sc 1;
     s2 \<leftarrow> rd sc 2;
     s3 \<leftarrow> rd sc 3;
     s4 \<leftarrow> rd sc 4;
     s5 \<leftarrow> rd sc 5;
     s6 \<leftarrow> rd sc 6;
     M_sp' \<leftarrow> to_int s0;
     Some \<lparr>M_sp = M_sp', taux = s1, tauy = s2, tauz = s3,
           M_rx = s4, M_ry = s5, M_rz = s6\<rparr>
   }"

text \<open>The scratch buffers and the two output arrays.\<close>

record state =
  E_2x :: "real list"
  E_2y :: "real list"
  E_2z :: "real list"
  outArrayR :: "real list"
  outArrayI :: "real list"

subsection \<open>The body of the per-knot loop\<close>

text \<open>
  Lines 135-137, once per axis: the lattice index \<open>m\<close>.  The product and the quotient
  are rounded, \<open>2 * PI\<close> is a binary64 number, \<open>floor\<close> is exact, and its result is
  converted to \<open>int\<close>.
\<close>

definition lattice_index :: "real \<Rightarrow> real \<Rightarrow> int option" where
  "lattice_index M_r knot = to_int (of_int \<lfloor>dbl (dbl (M_r * knot) / (2 * PI))\<rfloor>)"

text \<open>
  Lines 140-151, once per axis: \<open>E_1\<close>, \<open>E_2dummy\<close> and \<open>E_2dummy_inv\<close> for the lattice
  index \<open>m\<close>.  The second argument is the half extent \<open>M_rd2\<close>.
\<close>

definition axis_factors ::
  "real \<Rightarrow> real \<Rightarrow> real \<Rightarrow> real \<Rightarrow> int \<Rightarrow> (real \<times> real \<times> real) option" where
  "axis_factors M_r M_rd2 tau knot m = do {
     t \<leftarrow> fdiv (of_int m * PI) M_rd2;
     let x = knot - t;
     a \<leftarrow> fdiv (- x * x) (4 * tau);
     let E_1 = exp a;
     b \<leftarrow> fdiv (x * PI) (M_r * tau);
     let E_2dummy = exp b;
     E_2dummy_inv \<leftarrow> fdiv 1 E_2dummy;
     Some (E_1, E_2dummy, E_2dummy_inv)
   }"

text \<open>Lines 160-166 and 167-173: one iteration of each recurrence loop.\<close>

definition fwd_step :: "real \<Rightarrow> real \<Rightarrow> real \<Rightarrow> int \<Rightarrow> state \<Rightarrow> state option" where
  "fwd_step E_2xdummy E_2ydummy E_2zdummy j s = do {
     ex \<leftarrow> rd (E_2x s) (j - 1);
     bx \<leftarrow> wr (E_2x s) j (E_2xdummy * ex);
     ey \<leftarrow> rd (E_2y s) (j - 1);
     by' \<leftarrow> wr (E_2y s) j (E_2ydummy * ey);
     ez \<leftarrow> rd (E_2z s) (j - 1);
     bz \<leftarrow> wr (E_2z s) j (E_2zdummy * ez);
     Some (s\<lparr>E_2x := bx, E_2y := by', E_2z := bz\<rparr>)
   }"

definition bwd_step :: "real \<Rightarrow> real \<Rightarrow> real \<Rightarrow> int \<Rightarrow> state \<Rightarrow> state option" where
  "bwd_step E_2xdummy_inv E_2ydummy_inv E_2zdummy_inv j s = do {
     ex \<leftarrow> rd (E_2x s) (j + 1);
     bx \<leftarrow> wr (E_2x s) j (ex * E_2xdummy_inv);
     ey \<leftarrow> rd (E_2y s) (j + 1);
     by' \<leftarrow> wr (E_2y s) j (ey * E_2ydummy_inv);
     ez \<leftarrow> rd (E_2z s) (j + 1);
     bz \<leftarrow> wr (E_2z s) j (ez * E_2zdummy_inv);
     Some (s\<lparr>E_2x := bx, E_2y := by', E_2z := bz\<rparr>)
   }"

text \<open>
  The boundary tests and the wrapped index (lines 189-193, 199-203, 207-211), for the
  candidate index \<open>c = m + l\<close>: \<open>wrap_ind\<close> is the value, \<open>wrap_ind_c\<close> the computation
  with the sum \<open>m + l\<close> and the converted result checked to be an \<open>int\<close>.
\<close>

definition wrap_ind :: "real \<Rightarrow> real \<Rightarrow> int \<Rightarrow> int" where
  "wrap_ind M_r M_rd2 c =
     (let l = c_bool (of_int c + M_rd2 \<ge> 0);
          r = c_bool (of_int c < M_rd2)
      in c_int (of_int c + of_int (r - l) * M_r + M_rd2))"

definition wrap_ind_c :: "real \<Rightarrow> real \<Rightarrow> int \<Rightarrow> int \<Rightarrow> int option" where
  "wrap_ind_c M_r M_rd2 m l = do {
     c \<leftarrow> ck (m + l);
     ck (wrap_ind M_r M_rd2 c)
   }"

text \<open>
  The linear index of line 213: \<open>lin_ind\<close> is the value, \<open>lin_ind_c\<close> the computation
  with the \<open>int\<close> product \<open>N2 * zind\<close> and the converted result checked to be an \<open>int\<close>.
\<close>

definition lin_ind :: "params \<Rightarrow> int \<Rightarrow> int \<Rightarrow> int \<Rightarrow> int" where
  "lin_ind p xind yind zind =
     c_int (of_int xind + M_rx p * of_int yind + of_int (N2 p * zind))"

definition lin_ind_c :: "params \<Rightarrow> int \<Rightarrow> int \<Rightarrow> int \<Rightarrow> int option" where
  "lin_ind_c p xind yind zind = do {
     t \<leftarrow> ck (N2 p * zind);
     ck (lin_ind p xind yind zind)
   }"

text \<open>Lines 204-218: one iteration of the loop over \<open>l1\<close>.\<close>

definition x_step ::
  "inputs \<Rightarrow> params \<Rightarrow> int \<Rightarrow> int \<Rightarrow> real \<Rightarrow> int \<Rightarrow> int \<Rightarrow> int \<Rightarrow> state \<Rightarrow> state option"
  where
  "x_step inp p i m1 V1r yind zind l1 s = do {
     xind \<leftarrow> wrap_ind_c (M_rx p) (M_rxd2 p) m1 l1;
     ind \<leftarrow> lin_ind_c p xind yind zind;
     e2 \<leftarrow> rd (E_2x s) (M_sp p + l1 - 1);
     e3 \<leftarrow> rd (E_3x inp) (M_sp p + l1 - 1);
     let E_23x = e2 * e3;
     fr \<leftarrow> rd (ftaur inp) ind;
     accR \<leftarrow> rd (outArrayR s) i;
     oR \<leftarrow> wr (outArrayR s) i (accR + V1r * E_23x * fr);
     fi \<leftarrow> rd (ftaui inp) ind;
     accI \<leftarrow> rd (outArrayI s) i;
     oI \<leftarrow> wr (outArrayI s) i (accI + V1r * E_23x * fi);
     Some (s\<lparr>outArrayR := oR, outArrayI := oI\<rparr>)
   }"

text \<open>Lines 194-219: one iteration of the loop over \<open>l2\<close>.\<close>

definition y_step ::
  "inputs \<Rightarrow> params \<Rightarrow> int \<Rightarrow> int \<Rightarrow> int \<Rightarrow> real \<Rightarrow> int \<Rightarrow> int \<Rightarrow> state \<Rightarrow> state option"
  where
  "y_step inp p i m1 m2 V2r zind l2 s = do {
     e2 \<leftarrow> rd (E_2y s) (M_sp p + l2 - 1);
     e3 \<leftarrow> rd (E_3y inp) (M_sp p + l2 - 1);
     let E_23y = e2 * e3;
     let V1r = V2r * E_23y;
     yind \<leftarrow> wrap_ind_c (M_ry p) (M_ryd2 p) m2 l2;
     for_loop [1 - M_sp p .. M_sp p] (x_step inp p i m1 V1r yind zind) s
   }"

text \<open>Lines 184-220: one iteration of the loop over \<open>l3\<close>.\<close>

definition z_step ::
  "inputs \<Rightarrow> params \<Rightarrow> int \<Rightarrow> int \<Rightarrow> int \<Rightarrow> int \<Rightarrow> real \<Rightarrow> int \<Rightarrow> state \<Rightarrow> state option"
  where
  "z_step inp p i m1 m2 m3 V0r l3 s = do {
     e2 \<leftarrow> rd (E_2z s) (M_sp p + l3 - 1);
     e3 \<leftarrow> rd (E_3z inp) (M_sp p + l3 - 1);
     let E_23z = e2 * e3;
     let V2r = V0r * E_23z;
     zind \<leftarrow> wrap_ind_c (M_rz p) (M_rzd2 p) m3 l3;
     for_loop [1 - M_sp p .. M_sp p] (y_step inp p i m1 m2 V2r zind) s
   }"

text \<open>Lines 160-173: both recurrence loops.\<close>

definition gen_E_2 :: "params \<Rightarrow> real \<Rightarrow> real \<Rightarrow> real \<Rightarrow> real \<Rightarrow> real \<Rightarrow> real \<Rightarrow>
    state \<Rightarrow> state option" where
  "gen_E_2 p dx dy dz ix iy iz s = do {
     s1 \<leftarrow> for_loop [M_sp p .. TwoM_sp p - 1] (fwd_step dx dy dz) s;
     for_loop (rev [0 .. M_sp p - 2]) (bwd_step ix iy iz) s1
   }"

text \<open>Lines 129-220: the body of the loop over the knots.\<close>

definition knot_body :: "inputs \<Rightarrow> params \<Rightarrow> int \<Rightarrow> state \<Rightarrow> state option" where
  "knot_body inp p i s = do {
     knotx \<leftarrow> rd (knots inp) i;
     iy \<leftarrow> ck (i + int (knots_M inp));
     knoty \<leftarrow> rd (knots inp) iy;
     iz \<leftarrow> ck (i + 2 * int (knots_M inp));
     knotz \<leftarrow> rd (knots inp) iz;
     m1 \<leftarrow> lattice_index (M_rx p) knotx;
     m2 \<leftarrow> lattice_index (M_ry p) knoty;
     m3 \<leftarrow> lattice_index (M_rz p) knotz;
     (E_1x, E_2xdummy, E_2xdummy_inv) \<leftarrow>
        axis_factors (M_rx p) (M_rxd2 p) (taux p) knotx m1;
     (E_1y, E_2ydummy, E_2ydummy_inv) \<leftarrow>
        axis_factors (M_ry p) (M_ryd2 p) (tauy p) knoty m2;
     (E_1z, E_2zdummy, E_2zdummy_inv) \<leftarrow>
        axis_factors (M_rz p) (M_rzd2 p) (tauz p) knotz m3;
     s2 \<leftarrow> gen_E_2 p E_2xdummy E_2ydummy E_2zdummy
             E_2xdummy_inv E_2ydummy_inv E_2zdummy_inv s;
     let E_1xyz = E_1x * E_1y * E_1z;
     let V0r = E_1xyz;
     for_loop [1 - M_sp p .. M_sp p] (z_step inp p i m1 m2 m3 V0r) s2
   }"

subsection \<open>The whole function\<close>

text \<open>Lines 119-123: one iteration of the loop that clears the outputs.\<close>

definition zero_step :: "int \<Rightarrow> state \<Rightarrow> state option" where
  "zero_step i s = do {
     oR \<leftarrow> wr (outArrayR s) i 0;
     oI \<leftarrow> wr (outArrayI s) i 0;
     Some (s\<lparr>outArrayR := oR, outArrayI := oI\<rparr>)
   }"

text \<open>Lines 124-126: the seed of the three scratch buffers.\<close>

definition seed_E_2 :: "params \<Rightarrow> state \<Rightarrow> state option" where
  "seed_E_2 p s = do {
     bx \<leftarrow> wr (E_2x s) (M_sp p - 1) 1;
     by' \<leftarrow> wr (E_2y s) (M_sp p - 1) 1;
     bz \<leftarrow> wr (E_2z s) (M_sp p - 1) 1;
     Some (s\<lparr>E_2x := bx, E_2y := by', E_2z := bz\<rparr>)
   }"

text \<open>Lines 108-115: the allocations.\<close>

definition alloc_state :: "(nat \<Rightarrow> nat \<Rightarrow> real) \<Rightarrow> inputs \<Rightarrow> params \<Rightarrow> state" where
  "alloc_state uninit inp p =
     \<lparr>E_2x = malloc (TwoM_sp p) (uninit 0),
      E_2y = malloc (TwoM_sp p) (uninit 1),
      E_2z = malloc (TwoM_sp p) (uninit 2),
      outArrayR = malloc (int (knots_M inp)) (uninit 3),
      outArrayI = malloc (int (knots_M inp)) (uninit 4)\<rparr>"

text \<open>
  Lines 84 and 101-107: the conversions to \<open>int\<close> of the number of knots \<open>M\<close>, of \<open>N2\<close> and
  of \<open>N3\<close>, and the \<open>int\<close> products \<open>twoM\<close> and \<open>TwoM_sp\<close>.  Where they succeed the values
  are \<open>int (knots_M inp)\<close>, \<open>N2 p\<close>, \<open>2 * int (knots_M inp)\<close> and \<open>TwoM_sp p\<close>.
\<close>

definition conversions :: "inputs \<Rightarrow> params \<Rightarrow> unit option" where
  "conversions inp p = do {
     M \<leftarrow> ck (int (knots_M inp));
     N2' \<leftarrow> to_int (M_rx p * M_ry p);
     N3 \<leftarrow> to_int (M_rx p * M_ry p * M_rz p);
     twoM \<leftarrow> ck (2 * M);
     TwoM_sp' \<leftarrow> ck (2 * M_sp p);
     Some ()
   }"

definition mexFunction ::
  "(nat \<Rightarrow> nat \<Rightarrow> real) \<Rightarrow> inputs \<Rightarrow> (real list \<times> real list) option" where
  "mexFunction uninit inp = do {
     p \<leftarrow> read_Scales (Scales inp);
     _ \<leftarrow> conversions inp p;
     s0 \<leftarrow> for_loop [0 .. int (knots_M inp) - 1] zero_step (alloc_state uninit inp p);
     s1 \<leftarrow> seed_E_2 p s0;
     s2 \<leftarrow> for_loop [0 .. int (knots_M inp) - 1] (knot_body inp p) s1;
     Some (outArrayR s2, outArrayI s2)
   }"

section \<open>Auxiliary definitions\<close>

text \<open>
  The definitions below describe what the loops of the program compute: the contents of
  the scratch buffers after the recurrences, the sums accumulated by the three nested
  loops, and the conditions under which every int value and every array access of a run
  is within bounds.
  The lemmas of the next section connect them with the program.
\<close>

text \<open>The buffer after the forward recurrence has run over the indices a .. b.\<close>
definition fwd_buf :: "real \<Rightarrow> int \<Rightarrow> int \<Rightarrow> real list \<Rightarrow> real list" where
  "fwd_buf d a b xs =
     map (\<lambda>j. if a \<le> int j \<and> int j \<le> b then d ^ nat (int j - a + 1) * xs ! nat (a - 1)
              else xs ! j) [0 ..< length xs]"

text \<open>The buffer after the backward recurrence has run over the indices b down to a.\<close>
definition bwd_buf :: "real \<Rightarrow> int \<Rightarrow> int \<Rightarrow> real list \<Rightarrow> real list" where
  "bwd_buf d a b xs =
     map (\<lambda>j. if a \<le> int j \<and> int j \<le> b then xs ! nat (b + 1) * d ^ nat (b + 1 - int j)
              else xs ! j) [0 ..< length xs]"

text \<open>A scratch buffer after both recurrence loops, for the half width n.\<close>
definition E2_tab :: "int \<Rightarrow> real \<Rightarrow> real \<Rightarrow> real list \<Rightarrow> real list" where
  "E2_tab n d e xs = bwd_buf e 0 (n - 2) (fwd_buf d n (2 * n - 1) xs)"

text \<open>The same buffer written out: powers of the ratio d above the central slot, powers of the inverse e below it, times the central value c.\<close>
definition E2_pow :: "int \<Rightarrow> real \<Rightarrow> real \<Rightarrow> real \<Rightarrow> real list" where
  "E2_pow n d e c =
     map (\<lambda>j. if n - 1 \<le> int j then d ^ nat (int j - (n - 1)) * c
              else c * e ^ nat (n - 1 - int j)) [0 ..< nat (2 * n)]"

text \<open>An index lies within the bounds of an array.\<close>
definition in_rng :: "real list \<Rightarrow> int \<Rightarrow> bool" where
  "in_rng a j = (0 \<le> j \<and> j < int (length a))"

text \<open>The two accumulations outArrayR[i] += vr and outArrayI[i] += vi.\<close>
definition acc :: "int \<Rightarrow> real \<Rightarrow> real \<Rightarrow> state \<Rightarrow> state" where
  "acc i vr vi s =
     s\<lparr>outArrayR := (outArrayR s)[nat i := outArrayR s ! nat i + vr],
       outArrayI := (outArrayI s)[nat i := outArrayI s ! nat i + vi]\<rparr>"

text \<open>The linear index that the innermost loop computes for the offset l1.\<close>
definition cell_x :: "params \<Rightarrow> int \<Rightarrow> int \<Rightarrow> int \<Rightarrow> int \<Rightarrow> int" where
  "cell_x p m1 yind zind l1 =
     lin_ind p (wrap_ind (M_rx p) (M_rxd2 p) (m1 + l1)) yind zind"

text \<open>The term that one iteration of the innermost loop adds for the grid array g.\<close>
definition tx :: "inputs \<Rightarrow> params \<Rightarrow> real list \<Rightarrow> int \<Rightarrow> real \<Rightarrow> int \<Rightarrow> int \<Rightarrow>
    real list \<Rightarrow> int \<Rightarrow> real" where
  "tx inp p ex m1 V1r yind zind g l1 =
     V1r * (ex ! nat (M_sp p + l1 - 1) * E_3x inp ! nat (M_sp p + l1 - 1))
       * g ! nat (cell_x p m1 yind zind l1)"

text \<open>All int values and array accesses of one iteration of the innermost loop are within bounds.\<close>
definition okx :: "inputs \<Rightarrow> params \<Rightarrow> real list \<Rightarrow> int \<Rightarrow> int \<Rightarrow> int \<Rightarrow> int \<Rightarrow> bool" where
  "okx inp p ex m1 yind zind l1 =
     (int_ok (m1 + l1) \<and> int_ok (wrap_ind (M_rx p) (M_rxd2 p) (m1 + l1)) \<and>
      int_ok (N2 p * zind) \<and> int_ok (cell_x p m1 yind zind l1) \<and>
      in_rng ex (M_sp p + l1 - 1) \<and> in_rng (E_3x inp) (M_sp p + l1 - 1) \<and>
      in_rng (ftaur inp) (cell_x p m1 yind zind l1) \<and>
      in_rng (ftaui inp) (cell_x p m1 yind zind l1))"

text \<open>What one iteration of the loop over l2 adds for the grid array g.\<close>
definition sy :: "inputs \<Rightarrow> params \<Rightarrow> real list \<Rightarrow> real list \<Rightarrow> int \<Rightarrow> int \<Rightarrow> real \<Rightarrow> int \<Rightarrow>
    real list \<Rightarrow> int \<Rightarrow> real" where
  "sy inp p ex ey m1 m2 V2r zind g l2 =
     (\<Sum>l1\<leftarrow>[1 - M_sp p .. M_sp p].
        tx inp p ex m1 (V2r * (ey ! nat (M_sp p + l2 - 1) * E_3y inp ! nat (M_sp p + l2 - 1)))
          (wrap_ind (M_ry p) (M_ryd2 p) (m2 + l2)) zind g l1)"

text \<open>All int values and array accesses of one iteration of the loop over l2 are within bounds.\<close>
definition oky :: "inputs \<Rightarrow> params \<Rightarrow> real list \<Rightarrow> real list \<Rightarrow> int \<Rightarrow> int \<Rightarrow> int \<Rightarrow> int \<Rightarrow> bool"
  where
  "oky inp p ex ey m1 m2 zind l2 =
     (int_ok (m2 + l2) \<and> int_ok (wrap_ind (M_ry p) (M_ryd2 p) (m2 + l2)) \<and>
      in_rng ey (M_sp p + l2 - 1) \<and> in_rng (E_3y inp) (M_sp p + l2 - 1) \<and>
      (\<forall>l1\<in>set [1 - M_sp p .. M_sp p].
         okx inp p ex m1 (wrap_ind (M_ry p) (M_ryd2 p) (m2 + l2)) zind l1))"

text \<open>What one iteration of the loop over l3 adds for the grid array g.\<close>
definition sz :: "inputs \<Rightarrow> params \<Rightarrow> real list \<Rightarrow> real list \<Rightarrow> real list \<Rightarrow> int \<Rightarrow> int \<Rightarrow> int \<Rightarrow>
    real \<Rightarrow> real list \<Rightarrow> int \<Rightarrow> real" where
  "sz inp p ex ey ez m1 m2 m3 V0r g l3 =
     (\<Sum>l2\<leftarrow>[1 - M_sp p .. M_sp p].
        sy inp p ex ey m1 m2 (V0r * (ez ! nat (M_sp p + l3 - 1) * E_3z inp ! nat (M_sp p + l3 - 1)))
          (wrap_ind (M_rz p) (M_rzd2 p) (m3 + l3)) g l2)"

text \<open>All int values and array accesses of one iteration of the loop over l3 are within bounds.\<close>
definition okz :: "inputs \<Rightarrow> params \<Rightarrow> real list \<Rightarrow> real list \<Rightarrow> real list \<Rightarrow> int \<Rightarrow> int \<Rightarrow> int \<Rightarrow>
    int \<Rightarrow> bool" where
  "okz inp p ex ey ez m1 m2 m3 l3 =
     (int_ok (m3 + l3) \<and> int_ok (wrap_ind (M_rz p) (M_rzd2 p) (m3 + l3)) \<and>
      in_rng ez (M_sp p + l3 - 1) \<and> in_rng (E_3z inp) (M_sp p + l3 - 1) \<and>
      (\<forall>l2\<in>set [1 - M_sp p .. M_sp p].
         oky inp p ex ey m1 m2 (wrap_ind (M_rz p) (M_rzd2 p) (m3 + l3)) l2))"

text \<open>The lattice index m that line 135 computes, before its conversion to int.\<close>
definition ax_m :: "real \<Rightarrow> real \<Rightarrow> int" where
  "ax_m M_r knot = \<lfloor>dbl (dbl (M_r * knot) / (2 * PI))\<rfloor>"

text \<open>The sub-cell offset x of line 140 for that lattice index, as a total function.\<close>
definition ax_x :: "real \<Rightarrow> real \<Rightarrow> real" where
  "ax_x M_r knot = knot - of_int (ax_m M_r knot) * PI / (M_r / 2)"

text \<open>The factor E_1 of line 141, as a total function.\<close>
definition ax_E1 :: "real \<Rightarrow> real \<Rightarrow> real \<Rightarrow> real" where
  "ax_E1 M_r tau knot = exp (- ax_x M_r knot * ax_x M_r knot / (4 * tau))"

text \<open>The ratio E_2dummy of line 142, as a total function.\<close>
definition ax_rho :: "real \<Rightarrow> real \<Rightarrow> real \<Rightarrow> real" where
  "ax_rho M_r tau knot = exp (ax_x M_r knot * PI / (M_r * tau))"

text \<open>The x coordinate of knot i (line 131).\<close>
definition kx :: "inputs \<Rightarrow> int \<Rightarrow> real" where
  "kx inp i = knots inp ! nat i"

text \<open>The y coordinate of knot i (line 132).\<close>
definition ky :: "inputs \<Rightarrow> int \<Rightarrow> real" where
  "ky inp i = knots inp ! nat (i + int (knots_M inp))"

text \<open>The z coordinate of knot i (line 133).\<close>
definition kz :: "inputs \<Rightarrow> int \<Rightarrow> real" where
  "kz inp i = knots inp ! nat (i + 2 * int (knots_M inp))"

text \<open>A scratch buffer after the recurrences when its central slot holds 1.\<close>
definition E2_of :: "int \<Rightarrow> real \<Rightarrow> real list" where
  "E2_of n rho = E2_pow n rho (1 / rho) 1"

text \<open>The state after the recurrences of a knot with the coordinates x, y, z.\<close>
definition gen_state :: "params \<Rightarrow> real \<Rightarrow> real \<Rightarrow> real \<Rightarrow> state \<Rightarrow> state" where
  "gen_state p x y z s =
     s\<lparr>E_2x := E2_of (M_sp p) (ax_rho (M_rx p) (taux p) x),
       E_2y := E2_of (M_sp p) (ax_rho (M_ry p) (tauy p) y),
       E_2z := E2_of (M_sp p) (ax_rho (M_rz p) (tauz p) z)\<rparr>"

text \<open>The sum that the three nested loops add to an output of a knot with the coordinates x, y, z, for the grid array g.\<close>
definition knot_val_at :: "inputs \<Rightarrow> params \<Rightarrow> real list \<Rightarrow> real \<Rightarrow> real \<Rightarrow> real \<Rightarrow> real" where
  "knot_val_at inp p g x y z =
     (\<Sum>l3\<leftarrow>[1 - M_sp p .. M_sp p].
        sz inp p (E2_of (M_sp p) (ax_rho (M_rx p) (taux p) x))
          (E2_of (M_sp p) (ax_rho (M_ry p) (tauy p) y))
          (E2_of (M_sp p) (ax_rho (M_rz p) (tauz p) z))
          (ax_m (M_rx p) x) (ax_m (M_ry p) y) (ax_m (M_rz p) z)
          (ax_E1 (M_rx p) (taux p) x * ax_E1 (M_ry p) (tauy p) y * ax_E1 (M_rz p) (tauz p) z)
          g l3)"

text \<open>No division by zero, no value outside int and no access out of bounds occurs while a knot with the coordinates x, y, z is processed.\<close>
definition knot_ok_at :: "inputs \<Rightarrow> params \<Rightarrow> real \<Rightarrow> real \<Rightarrow> real \<Rightarrow> bool" where
  "knot_ok_at inp p x y z =
     (int_ok (ax_m (M_rx p) x) \<and> int_ok (ax_m (M_ry p) y) \<and> int_ok (ax_m (M_rz p) z) \<and>
      M_rx p \<noteq> 0 \<and> taux p \<noteq> 0 \<and> M_ry p \<noteq> 0 \<and> tauy p \<noteq> 0 \<and> M_rz p \<noteq> 0 \<and> tauz p \<noteq> 0 \<and>
      (\<forall>l3\<in>set [1 - M_sp p .. M_sp p].
         okz inp p (E2_of (M_sp p) (ax_rho (M_rx p) (taux p) x))
           (E2_of (M_sp p) (ax_rho (M_ry p) (tauy p) y))
           (E2_of (M_sp p) (ax_rho (M_rz p) (tauz p) z))
           (ax_m (M_rx p) x) (ax_m (M_ry p) y) (ax_m (M_rz p) z) l3))"

text \<open>The same sum for knot i of the input.\<close>
definition knot_val :: "inputs \<Rightarrow> params \<Rightarrow> real list \<Rightarrow> int \<Rightarrow> real" where
  "knot_val inp p g i = knot_val_at inp p g (kx inp i) (ky inp i) (kz inp i)"

text \<open>The iteration of the knot loop for knot i is defined.\<close>
definition knot_ok :: "inputs \<Rightarrow> params \<Rightarrow> int \<Rightarrow> bool" where
  "knot_ok inp p i =
     (in_rng (knots inp) i \<and> in_rng (knots inp) (i + int (knots_M inp)) \<and>
      in_rng (knots inp) (i + 2 * int (knots_M inp)) \<and>
      int_ok (i + int (knots_M inp)) \<and> int_ok (i + 2 * int (knots_M inp)) \<and>
      knot_ok_at inp p (kx inp i) (ky inp i) (kz inp i))"

text \<open>The invariant of the knot loop: the half width is positive, the scratch buffers have 2 * M_sp slots and their central slots hold 1.\<close>
definition inv_state :: "params \<Rightarrow> state \<Rightarrow> bool" where
  "inv_state p s =
     (1 \<le> M_sp p \<and>
      length (E_2x s) = nat (TwoM_sp p) \<and> length (E_2y s) = nat (TwoM_sp p) \<and>
      length (E_2z s) = nat (TwoM_sp p) \<and>
      E_2x s ! nat (M_sp p - 1) = 1 \<and> E_2y s ! nat (M_sp p - 1) = 1 \<and>
      E_2z s ! nat (M_sp p - 1) = 1)"

text \<open>The parameters that lines 93-99 read from a vector of at least seven entries.\<close>
definition the_params :: "real list \<Rightarrow> params" where
  "the_params sc =
     \<lparr>M_sp = c_int (sc ! 0), taux = sc ! 1, tauy = sc ! 2, tauz = sc ! 3,
      M_rx = sc ! 4, M_ry = sc ! 5, M_rz = sc ! 6\<rparr>"

text \<open>The conversions of lines 84 and 101-107 yield values of type int.\<close>
definition conv_ok :: "inputs \<Rightarrow> params \<Rightarrow> bool" where
  "conv_ok inp p =
     (int_ok (int (knots_M inp)) \<and> int_ok (c_int (M_rx p * M_ry p)) \<and>
      int_ok (c_int (M_rx p * M_ry p * M_rz p)) \<and> int_ok (2 * int (knots_M inp)) \<and>
      int_ok (2 * M_sp p))"

text \<open>An output array after the clearing loop has run over the indices a .. b.\<close>
definition zero_buf :: "int \<Rightarrow> int \<Rightarrow> real list \<Rightarrow> real list" where
  "zero_buf a b xs = map (\<lambda>j. if a \<le> int j \<and> int j \<le> b then 0 else xs ! j) [0 ..< length xs]"

text \<open>The whole run is defined.\<close>
definition run_ok :: "inputs \<Rightarrow> bool" where
  "run_ok inp =
     (7 \<le> length (Scales inp) \<and> int_ok (c_int (Scales inp ! 0)) \<and>
      conv_ok inp (the_params (Scales inp)) \<and> 1 \<le> M_sp (the_params (Scales inp)) \<and>
      (\<forall>i\<in>set [0 .. int (knots_M inp) - 1]. knot_ok inp (the_params (Scales inp)) i))"

text \<open>The output array for the grid array g: one sum per knot.\<close>
definition run_out :: "inputs \<Rightarrow> real list \<Rightarrow> real list" where
  "run_out inp g =
     map (\<lambda>k. knot_val inp (the_params (Scales inp)) g (int k)) [0 ..< knots_M inp]"

text \<open>The table of the commented-out loop of lines 153-157: E_2[j] = pow(E_2dummy, j - M_sp + 1) for j = 0 .. 2 * M_sp - 1.\<close>
definition E_2_pow :: "int \<Rightarrow> real \<Rightarrow> real list" where
  "E_2_pow n rho = map (\<lambda>j. power_int rho (int j - n + 1)) [0 ..< nat (2 * n)]"

text \<open>Two buffers of equal length agree on every slot outside a .. b.\<close>
definition unchanged_outside :: "int \<Rightarrow> int \<Rightarrow> real list \<Rightarrow> real list \<Rightarrow> bool" where
  "unchanged_outside a b xs ys =
     (length ys = length xs \<and> (\<forall>k<length xs. \<not> (a \<le> int k \<and> int k \<le> b) \<longrightarrow> ys ! k = xs ! k))"

text \<open>The central slot of each scratch buffer holds 1.\<close>
definition centre_one :: "params \<Rightarrow> state \<Rightarrow> bool" where
  "centre_one p s =
     (E_2x s ! nat (M_sp p - 1) = 1 \<and> E_2y s ! nat (M_sp p - 1) = 1 \<and>
      E_2z s ! nat (M_sp p - 1) = 1)"

text \<open>The central slot of each scratch buffer exists and holds 1.\<close>
definition centre_ok :: "params \<Rightarrow> state \<Rightarrow> bool" where
  "centre_ok p s =
     (1 \<le> M_sp p \<and> M_sp p - 1 < int (length (E_2x s)) \<and> M_sp p - 1 < int (length (E_2y s)) \<and>
      M_sp p - 1 < int (length (E_2z s)) \<and> centre_one p s)"

text \<open>The three scratch buffers are unchanged outside a .. b.\<close>
definition bufs_unchanged :: "int \<Rightarrow> int \<Rightarrow> state \<Rightarrow> state \<Rightarrow> bool" where
  "bufs_unchanged a b s t =
     (unchanged_outside a b (E_2x s) (E_2x t) \<and> unchanged_outside a b (E_2y s) (E_2y t) \<and>
      unchanged_outside a b (E_2z s) (E_2z t))"

text \<open>The periodic index adjustment as the specification words it (step 6): subtract the extent from a candidate at or above the half extent, add it to one below the negative half extent, then add the half extent.\<close>
definition wrapped :: "int \<Rightarrow> int \<Rightarrow> int" where
  "wrapped N c =
     c - (if N div 2 \<le> c then N else 0) + (if c < - (N div 2) then N else 0) + N div 2"

text \<open>The weight of the offset triple l1, l2, l3, associated as the program multiplies it.\<close>
definition weight :: "inputs \<Rightarrow> params \<Rightarrow> real \<Rightarrow> real \<Rightarrow> real \<Rightarrow> int \<Rightarrow> int \<Rightarrow> int \<Rightarrow> real" where
  "weight inp p x y z l1 l2 l3 =
     ax_E1 (M_rx p) (taux p) x * ax_E1 (M_ry p) (tauy p) y * ax_E1 (M_rz p) (tauz p) z
     * (E2_of (M_sp p) (ax_rho (M_rz p) (tauz p) z) ! nat (M_sp p + l3 - 1)
          * E_3z inp ! nat (M_sp p + l3 - 1))
     * (E2_of (M_sp p) (ax_rho (M_ry p) (tauy p) y) ! nat (M_sp p + l2 - 1)
          * E_3y inp ! nat (M_sp p + l2 - 1))
     * (E2_of (M_sp p) (ax_rho (M_rx p) (taux p) x) ! nat (M_sp p + l1 - 1)
          * E_3x inp ! nat (M_sp p + l1 - 1))"

text \<open>The linear grid index of the offset triple l1, l2, l3 for a knot with the coordinates x, y, z.\<close>
definition cell :: "params \<Rightarrow> real \<Rightarrow> real \<Rightarrow> real \<Rightarrow> int \<Rightarrow> int \<Rightarrow> int \<Rightarrow> int" where
  "cell p x y z l1 l2 l3 =
     lin_ind p (wrap_ind (M_rx p) (M_rxd2 p) (ax_m (M_rx p) x + l1))
       (wrap_ind (M_ry p) (M_ryd2 p) (ax_m (M_ry p) y + l2))
       (wrap_ind (M_rz p) (M_rzd2 p) (ax_m (M_rz p) z + l3))"

text \<open>The offsets of the truncation window.\<close>
definition window :: "params \<Rightarrow> int list" where
  "window p = [1 - M_sp p .. M_sp p]"

text \<open>The nearest lattice index as the specification states it (step 1): the floor of the exact quotient.\<close>
definition spec_m :: "real \<Rightarrow> real \<Rightarrow> int" where
  "spec_m N knot = \<lfloor>N * knot / (2 * PI)\<rfloor>"

text \<open>The sub-cell offset of step 2, d = knot - m * (2 * PI / N), for a lattice index m.\<close>
definition offset_d :: "real \<Rightarrow> real \<Rightarrow> int \<Rightarrow> real" where
  "offset_d N knot m = knot - of_int m * (2 * PI / N)"

text \<open>The sub-cell offset of step 2 for the lattice index that the program computes.\<close>
definition spec_d :: "real \<Rightarrow> real \<Rightarrow> real" where
  "spec_d N knot = knot - of_int (ax_m N knot) * (2 * PI / N)"

text \<open>The central Gaussian factor as the specification states it (step 2).\<close>
definition spec_E1 :: "real \<Rightarrow> real \<Rightarrow> real" where
  "spec_E1 tau d = exp (- d\<^sup>2 / (4 * tau))"

text \<open>The geometric ratio that the program computes from the sub-cell offset d (lines 142, 146, 150).\<close>
definition E2_ratio :: "real \<Rightarrow> real \<Rightarrow> real \<Rightarrow> real" where
  "E2_ratio N tau d = exp (d * PI / (N * tau))"

text \<open>The separable weight of the specification (steps 4 and 5) for the lattice indices m1, m2, m3, with the powers of the ratio taken by direct exponentiation.\<close>
definition spec_weight :: "params \<Rightarrow> int \<Rightarrow> int \<Rightarrow> int \<Rightarrow> real list \<Rightarrow> real list \<Rightarrow> real list \<Rightarrow>
    real \<Rightarrow> real \<Rightarrow> real \<Rightarrow> int \<Rightarrow> int \<Rightarrow> int \<Rightarrow> int \<Rightarrow> int \<Rightarrow> int \<Rightarrow> real" where
  "spec_weight p Nx Ny Nz e3x e3y e3z knotx knoty knotz m1 m2 m3 l1 l2 l3 =
     spec_E1 (taux p) (offset_d (of_int Nx) knotx m1)
       * spec_E1 (tauy p) (offset_d (of_int Ny) knoty m2)
       * spec_E1 (tauz p) (offset_d (of_int Nz) knotz m3)
     * (power_int (E2_ratio (of_int Nx) (taux p) (offset_d (of_int Nx) knotx m1)) l1
          * e3x ! nat (M_sp p + l1 - 1))
     * (power_int (E2_ratio (of_int Ny) (tauy p) (offset_d (of_int Ny) knoty m2)) l2
          * e3y ! nat (M_sp p + l2 - 1))
     * (power_int (E2_ratio (of_int Nz) (tauz p) (offset_d (of_int Nz) knotz m3)) l3
          * e3z ! nat (M_sp p + l3 - 1))"

text \<open>The linear index of the wrapped cell, index = x + Nx * y + Nx * Ny * z, for the lattice indices m1, m2, m3.\<close>
definition spec_cell :: "int \<Rightarrow> int \<Rightarrow> int \<Rightarrow> int \<Rightarrow> int \<Rightarrow> int \<Rightarrow> int \<Rightarrow> int \<Rightarrow> int \<Rightarrow> int" where
  "spec_cell Nx Ny Nz m1 m2 m3 l1 l2 l3 =
     wrapped Nx (m1 + l1) + Nx * wrapped Ny (m2 + l2) + Nx * Ny * wrapped Nz (m3 + l3)"

text \<open>The triple sum over the offset window that the specification states for one knot and one grid array, for the lattice indices given by idx.\<close>
definition spec_sum :: "(real \<Rightarrow> real \<Rightarrow> int) \<Rightarrow> params \<Rightarrow> int \<Rightarrow> int \<Rightarrow> int \<Rightarrow>
    real list \<Rightarrow> real list \<Rightarrow> real list \<Rightarrow> real list \<Rightarrow> real \<Rightarrow> real \<Rightarrow> real \<Rightarrow> real" where
  "spec_sum idx p Nx Ny Nz e3x e3y e3z grid knotx knoty knotz =
     (\<Sum>l1 = 1 - M_sp p .. M_sp p. \<Sum>l2 = 1 - M_sp p .. M_sp p. \<Sum>l3 = 1 - M_sp p .. M_sp p.
        spec_weight p Nx Ny Nz e3x e3y e3z knotx knoty knotz
            (idx (of_int Nx) knotx) (idx (of_int Ny) knoty) (idx (of_int Nz) knotz) l1 l2 l3
          * grid ! nat (spec_cell Nx Ny Nz
              (idx (of_int Nx) knotx) (idx (of_int Ny) knoty) (idx (of_int Nz) knotz) l1 l2 l3))"

text \<open>The lattice index that the program computes for a knot coordinate lies in [0, N).\<close>
definition lattice_ok :: "int \<Rightarrow> real \<Rightarrow> bool" where
  "lattice_ok N knot = (0 \<le> ax_m (of_int N) knot \<and> ax_m (of_int N) knot < N)"

text \<open>The preconditions on the caller: seven parameters, a positive half width, positive even integer extents of at least twice the half width, a grid of fewer than 2^31 cells, nonzero spreading widths, kernel tables of 2 * M_sp entries, 3 * M knot coordinates with 3 * M below 2^31, every knot with its computed lattice indices within the extents, grid arrays of Nx * Ny * Nz samples.\<close>
definition well_formed :: "inputs \<Rightarrow> int \<Rightarrow> int \<Rightarrow> int \<Rightarrow> bool" where
  "well_formed inp Nx Ny Nz =
     (let p = the_params (Scales inp) in
      length (Scales inp) = 7 \<and> 1 \<le> M_sp p \<and>
      M_rx p = of_int Nx \<and> M_ry p = of_int Ny \<and> M_rz p = of_int Nz \<and>
      0 < Nx \<and> 0 < Ny \<and> 0 < Nz \<and> even Nx \<and> even Ny \<and> even Nz \<and>
      2 * M_sp p \<le> Nx \<and> 2 * M_sp p \<le> Ny \<and> 2 * M_sp p \<le> Nz \<and>
      Nx * Ny * Nz \<le> 2147483647 \<and>
      taux p \<noteq> 0 \<and> tauy p \<noteq> 0 \<and> tauz p \<noteq> 0 \<and>
      length (E_3x inp) = nat (2 * M_sp p) \<and> length (E_3y inp) = nat (2 * M_sp p) \<and>
      length (E_3z inp) = nat (2 * M_sp p) \<and>
      length (knots inp) = 3 * knots_M inp \<and> 3 * int (knots_M inp) \<le> 2147483647 \<and>
      (\<forall>i<knots_M inp. lattice_ok Nx (knots inp ! i) \<and>
         lattice_ok Ny (knots inp ! (i + knots_M inp)) \<and>
         lattice_ok Nz (knots inp ! (i + 2 * knots_M inp))) \<and>
      length (ftaur inp) = nat (Nx * Ny * Nz) \<and> length (ftaui inp) = nat (Nx * Ny * Nz))"

text \<open>The part of the preconditions that concerns the grid extents and the half width.\<close>
definition grid_shape :: "params \<Rightarrow> int \<Rightarrow> int \<Rightarrow> int \<Rightarrow> bool" where
  "grid_shape p Nx Ny Nz =
     (1 \<le> M_sp p \<and> M_rx p = of_int Nx \<and> M_ry p = of_int Ny \<and> M_rz p = of_int Nz \<and>
      0 < Nx \<and> 0 < Ny \<and> 0 < Nz \<and> even Nx \<and> even Ny \<and> even Nz \<and>
      2 * M_sp p \<le> Nx \<and> 2 * M_sp p \<le> Ny \<and> 2 * M_sp p \<le> Nz)"

text \<open>A grid array of n samples that is zero except for the value v at the cell c0.\<close>
definition impulse :: "nat \<Rightarrow> nat \<Rightarrow> real \<Rightarrow> real list" where
  "impulse n c0 v = (replicate n 0)[c0 := v]"

text \<open>The distance between a knot coordinate and the lattice point at the offset l from the lattice point that the program computes for it.\<close>
definition knot_offset :: "int \<Rightarrow> real \<Rightarrow> int \<Rightarrow> real" where
  "knot_offset N knot l = spec_d (of_int N) knot - of_int l * (2 * PI / of_int N)"

text \<open>The Gaussian envelope of the three distances.\<close>
definition gauss_env :: "params \<Rightarrow> real \<Rightarrow> real \<Rightarrow> real \<Rightarrow> real" where
  "gauss_env p Dx Dy Dz =
     exp (- Dx\<^sup>2 / (4 * taux p)) * exp (- Dy\<^sup>2 / (4 * tauy p)) * exp (- Dz\<^sup>2 / (4 * tauz p))"

text \<open>Modelled from the spec: the kernel tables are computed by the caller, outside the source file.  The specification describes an entry as the knot-independent factor of the identity exp (- (d - l * Delta)^2 / (4 * tau)) = E1 * rho^l * factor, with Delta = 2 * PI / N; for the ratio the program computes this factor is exp (- (l * Delta)^2 / (4 * tau)).\<close>
definition gauss_factor :: "int \<Rightarrow> real \<Rightarrow> int \<Rightarrow> real" where
  "gauss_factor N tau l = exp (- (of_int l * (2 * PI / of_int N))\<^sup>2 / (4 * tau))"

text \<open>The ratio of the table entry for the offset l to that Gaussian factor: it is 1 where the table holds the factor itself.\<close>
definition table_dev :: "int \<Rightarrow> int \<Rightarrow> real \<Rightarrow> real list \<Rightarrow> int \<Rightarrow> real" where
  "table_dev n N tau tab l = tab ! nat (n + l - 1) / gauss_factor N tau l"

text \<open>An example input: one knot at the origin, half width 1, a 2 x 2 x 2 grid.\<close>
definition I1 :: inputs where
  "I1 = \<lparr>ftaur = [1, 1, 1, 1, 1, 1, 1, 1], ftaui = [0, 0, 0, 0, 0, 0, 0, 1], knots_M = 1,
         knots = [0, 0, 0], E_3x = [2, 3], E_3y = [1, 1], E_3z = [1, 1],
         Scales = [1, 1, 1, 1, 2, 2, 2]\<rparr>"

text \<open>The parameters of the example inputs with half width 1 on a 2 x 2 x 2 grid.\<close>
definition P1 :: params where
  "P1 = \<lparr>M_sp = 1, taux = 1, tauy = 1, tauz = 1, M_rx = 2, M_ry = 2, M_rz = 2\<rparr>"

text \<open>Freshly allocated memory that holds zeros.\<close>
definition zeros :: "nat \<Rightarrow> nat \<Rightarrow> real" where
  "zeros a j = 0"

text \<open>The linear index of the window cell at the offsets l1, l2, l3 of knot i of the knot array ks, for the lattice indices that the program computes.\<close>
definition window_cell :: "int \<Rightarrow> int \<Rightarrow> int \<Rightarrow> real list \<Rightarrow> nat \<Rightarrow> nat \<Rightarrow> int \<Rightarrow> int \<Rightarrow> int \<Rightarrow> int"
  where
  "window_cell Nx Ny Nz ks M i l1 l2 l3 =
     spec_cell Nx Ny Nz (ax_m (of_int Nx) (ks ! i)) (ax_m (of_int Ny) (ks ! (i + M)))
       (ax_m (of_int Nz) (ks ! (i + 2 * M))) l1 l2 l3"

text \<open>Example parameters: half width 1 on a 22 x 22 x 22 grid.\<close>
definition P22 :: params where
  "P22 = \<lparr>M_sp = 1, taux = 1, tauy = 1, tauz = 1, M_rx = 22, M_ry = 22, M_rz = 22\<rparr>"

text \<open>An example input on that grid: one knot at the angle PI of the x axis and the angle 0 of the other axes, and a grid that is zero except for the real sample 1 at the cell c0.\<close>
definition J22 :: "nat \<Rightarrow> inputs" where
  "J22 c0 = \<lparr>ftaur = impulse 10648 c0 1, ftaui = impulse 10648 c0 0, knots_M = 1,
             knots = [PI, 0, 0], E_3x = [2, 3], E_3y = [1, 1], E_3z = [1, 1],
             Scales = [1, 1, 1, 1, 22, 22, 22]\<rparr>"

text \<open>The first example input with the knot moved to the x coordinate 1.\<close>
definition K1 :: inputs where
  "K1 = I1\<lparr>knots := [1, 0, 0]\<rparr>"

text \<open>The largest binary64 number below 2 * PI.\<close>
definition k_below :: real where
  "k_below = 7074237752028439 / 1125899906842624"

text \<open>Example parameters: half width 23 on a 46 x 46 x 46 grid.\<close>
definition P46 :: params where
  "P46 = \<lparr>M_sp = 23, taux = 1, tauy = 1, tauz = 1, M_rx = 46, M_ry = 46, M_rz = 46\<rparr>"

text \<open>An example input on that grid: kernel tables of 46 entries, 97336 grid samples, and one knot whose x coordinate is the largest binary64 number below 2 * PI.\<close>
definition I46 :: inputs where
  "I46 = \<lparr>ftaur = replicate 97336 1, ftaui = replicate 97336 0, knots_M = 1,
           knots = [k_below, 0, 0], E_3x = replicate 46 1, E_3y = replicate 46 1,
           E_3z = replicate 46 1, Scales = [23, 1, 1, 1, 46, 46, 46]\<rparr>"

text \<open>The ratio E_2dummy that lines 140-151 compute for one axis, for the lattice index of line 135.\<close>
definition E_2dummy_of :: "real \<Rightarrow> real \<Rightarrow> real \<Rightarrow> real option" where
  "E_2dummy_of M_r tau knot =
     map_option (\<lambda>(E_1, E_2dummy, E_2dummy_inv). E_2dummy)
       (axis_factors M_r (M_r / 2) tau knot (ax_m M_r knot))"

text \<open>The ratio as the specification states it (step 3), with the factor 2 * PI.\<close>
definition spec_rho :: "real \<Rightarrow> real \<Rightarrow> real \<Rightarrow> real" where
  "spec_rho N tau knot = exp (spec_d N knot * (2 * PI) / (N * tau))"

text \<open>Example parameters: half width 2 on a 4 x 4 x 4 grid.\<close>
definition P0 :: params where
  "P0 = \<lparr>M_sp = 2, taux = 1, tauy = 1, tauz = 1, M_rx = 4, M_ry = 4, M_rz = 4\<rparr>"

text \<open>An example state whose scratch buffers hold 1 in the central slot and arbitrary values elsewhere.\<close>
definition S0 :: state where
  "S0 = \<lparr>E_2x = [9, 1, 9, 9], E_2y = [8, 1, 8, 8], E_2z = [7, 1, 7, 7],
         outArrayR = [], outArrayI = []\<rparr>"

text \<open>An example state for the half width 1, with arbitrary contents of the scratch buffers.\<close>
definition S1 :: state where
  "S1 = \<lparr>E_2x = [5, 5], E_2y = [5, 5], E_2z = [5, 5], outArrayR = [0], outArrayI = [0]\<rparr>"

text \<open>The knot array (all x, then all y, then all z coordinates of M knots) rearranged so that knot k of the result is knot f k of the argument.\<close>
definition permute_knots :: "(nat \<Rightarrow> nat) \<Rightarrow> nat \<Rightarrow> real list \<Rightarrow> real list" where
  "permute_knots f M ks = map (\<lambda>j. ks ! (f (j mod M) + (j div M) * M)) [0 ..< 3 * M]"

text \<open>An example input with two knots, at the angles 0 and PI of the x axis.\<close>
definition I2 :: inputs where
  "I2 = \<lparr>ftaur = [1, 0, 0, 0, 0, 0, 0, 0], ftaui = [0, 0, 0, 0, 0, 0, 0, 1], knots_M = 2,
         knots = [0, PI, 0, 0, 0, 0], E_3x = [2, 3], E_3y = [1, 1], E_3z = [1, 1],
         Scales = [1, 1, 1, 1, 2, 2, 2]\<rparr>"

text \<open>The angular coordinate of the lattice point that the wrap of the program associates with the axis index j: the index N / 2 is the angle 0.\<close>
definition cell_angle :: "int \<Rightarrow> int \<Rightarrow> real" where
  "cell_angle N j = of_int ((j + N div 2) mod N) * (2 * PI / of_int N)"

text \<open>An example input: a 4 x 4 x 4 grid with a unit impulse at the cell (3, 0, 2), half width 2, spreading widths 1, one knot at the angle of that cell.\<close>
definition I4 :: inputs where
  "I4 = \<lparr>ftaur = impulse 64 35 1, ftaui = replicate 64 0, knots_M = 1,
         knots = [PI / 2, PI, 0], E_3x = [2, 3, 5, 7], E_3y = [1, 2, 1, 1], E_3z = [1, 4, 1, 1],
         Scales = [2, 1, 1, 1, 4, 4, 4]\<rparr>"

text \<open>The parameters of that input.\<close>
definition P4 :: params where
  "P4 = \<lparr>M_sp = 2, taux = 1, tauy = 1, tauz = 1, M_rx = 4, M_ry = 4, M_rz = 4\<rparr>"

text \<open>The Gaussian envelope of the distances between knot i of the knot array ks and the lattice point at the offsets l1, l2, l3 from the lattice point that the program computes for the knot.\<close>
definition envelope_at :: "params \<Rightarrow> int \<Rightarrow> int \<Rightarrow> int \<Rightarrow> real list \<Rightarrow> nat \<Rightarrow> nat \<Rightarrow>
    int \<Rightarrow> int \<Rightarrow> int \<Rightarrow> real" where
  "envelope_at p Nx Ny Nz ks M i l1 l2 l3 =
     gauss_env p (knot_offset Nx (ks ! i) l1) (knot_offset Ny (ks ! (i + M)) l2)
       (knot_offset Nz (ks ! (i + 2 * M)) l3)"

text \<open>The product, over the three axes, of the ratios of the table entries for the offsets l1, l2, l3 to the Gaussian factors.\<close>
definition tables_dev :: "inputs \<Rightarrow> params \<Rightarrow> int \<Rightarrow> int \<Rightarrow> int \<Rightarrow> int \<Rightarrow> int \<Rightarrow> int \<Rightarrow> real" where
  "tables_dev inp p Nx Ny Nz l1 l2 l3 =
     table_dev (M_sp p) Nx (taux p) (E_3x inp) l1 * table_dev (M_sp p) Ny (tauy p) (E_3y inp) l2
       * table_dev (M_sp p) Nz (tauz p) (E_3z inp) l3"

text \<open>An example input: a 4 x 4 x 4 grid with the sample (3, - 2) at the cell (2, 2, 2), half width 1, spreading widths 1.\<close>
definition I5 :: inputs where
  "I5 = \<lparr>ftaur = impulse 64 42 3, ftaui = impulse 64 42 (- 2), knots_M = 1,
         knots = [0, 0, 0], E_3x = [1, 1 / 2], E_3y = [1, 1 / 2], E_3z = [1, 1 / 2],
         Scales = [1, 1, 1, 1, 4, 4, 4]\<rparr>"

text \<open>The parameters of that input.\<close>
definition P5 :: params where
  "P5 = \<lparr>M_sp = 1, taux = 1, tauy = 1, tauz = 1, M_rx = 4, M_ry = 4, M_rz = 4\<rparr>"

section \<open>The loops of the program\<close>

subsection \<open>The recurrence loops\<close>

lemma rd_Some: "0 \<le> j \<Longrightarrow> j < int (length a) \<Longrightarrow> rd a j = Some (a ! nat j)"
  by (simp add: rd_def)

lemma wr_Some: "0 \<le> j \<Longrightarrow> j < int (length a) \<Longrightarrow> wr a j v = Some (a[nat j := v])"
  by (simp add: wr_def)

lemma for_loop_append:
  "for_loop (js @ ks) body s =
     (case for_loop js body s of None \<Rightarrow> None | Some s' \<Rightarrow> for_loop ks body s')"
  by (induction js arbitrary: s) (auto split: option.splits)

lemma length_fwd_buf [simp]: "length (fwd_buf d a b xs) = length xs"
  by (simp add: fwd_buf_def)

lemma length_bwd_buf [simp]: "length (bwd_buf d a b xs) = length xs"
  by (simp add: bwd_buf_def)

lemma fwd_buf_empty: "b < a \<Longrightarrow> fwd_buf d a b xs = xs"
  by (rule nth_equalityI) (auto simp: fwd_buf_def)

lemma bwd_buf_empty: "b < a \<Longrightarrow> bwd_buf d a b xs = xs"
  by (rule nth_equalityI) (auto simp: bwd_buf_def)

lemma fwd_buf_step:
  assumes "1 \<le> a" "a \<le> b" "b < int (length xs)"
  shows "fwd_buf d (a + 1) b (xs[nat a := d * xs ! nat (a - 1)]) = fwd_buf d a b xs"
proof (rule nth_equalityI)
  show "length (fwd_buf d (a + 1) b (xs[nat a := d * xs ! nat (a - 1)])) = length (fwd_buf d a b xs)"
    by simp
next
  fix j assume "j < length (fwd_buf d (a + 1) b (xs[nat a := d * xs ! nat (a - 1)]))"
  then have j: "j < length xs" by simp
  have e: "nat (a + 1 - 1) = nat a" by simp
  show "fwd_buf d (a + 1) b (xs[nat a := d * xs ! nat (a - 1)]) ! j = fwd_buf d a b xs ! j"
  proof (cases "a + 1 \<le> int j \<and> int j \<le> b")
    case True
    then have "nat (int j - a + 1) = Suc (nat (int j - (a + 1) + 1))" by linarith
    moreover have "nat a < length xs" using assms by linarith
    ultimately show ?thesis using True j assms by (simp add: fwd_buf_def e)
  next
    case False
    show ?thesis
    proof (cases "int j = a")
      case True
      then have "j = nat a" by simp
      with True j assms show ?thesis by (simp add: fwd_buf_def)
    next
      case F2: False
      then have "j \<noteq> nat a" using assms by linarith
      with False F2 j assms show ?thesis by (auto simp add: fwd_buf_def)
    qed
  qed
qed

lemma fwd_loop:
  assumes "1 \<le> a" "b < int (length (E_2x s))" "b < int (length (E_2y s))"
    "b < int (length (E_2z s))"
  shows "for_loop [a .. b] (fwd_step dx dy dz) s =
           Some (s\<lparr>E_2x := fwd_buf dx a b (E_2x s), E_2y := fwd_buf dy a b (E_2y s),
                   E_2z := fwd_buf dz a b (E_2z s)\<rparr>)"
  using assms
proof (induction "nat (b - a + 1)" arbitrary: a s)
  case 0
  then have "b < a" by simp
  then show ?case by (simp add: fwd_buf_empty)
next
  case (Suc k)
  then have ab: "a \<le> b" by linarith
  let ?s = "s\<lparr>E_2x := (E_2x s)[nat a := dx * E_2x s ! nat (a - 1)],
               E_2y := (E_2y s)[nat a := dy * E_2y s ! nat (a - 1)],
               E_2z := (E_2z s)[nat a := dz * E_2z s ! nat (a - 1)]\<rparr>"
  have st: "fwd_step dx dy dz a s = Some ?s"
    using Suc.prems ab by (simp add: fwd_step_def rd_def wr_def)
  have k: "k = nat (b - (a + 1) + 1)" using Suc.hyps(2) by linarith
  have "for_loop [a + 1 .. b] (fwd_step dx dy dz) ?s =
          Some (?s\<lparr>E_2x := fwd_buf dx (a + 1) b (E_2x ?s),
                    E_2y := fwd_buf dy (a + 1) b (E_2y ?s),
                    E_2z := fwd_buf dz (a + 1) b (E_2z ?s)\<rparr>)"
    using Suc.prems by (intro Suc.hyps(1) [OF k]) simp_all
  then show ?case
    using Suc.prems ab st by (simp add: upto_rec1 [of a b] fwd_buf_step)
qed

lemma bwd_buf_step:
  assumes "0 \<le> a" "a \<le> b" "b + 1 < int (length xs)"
  shows "bwd_buf d a (b - 1) (xs[nat b := xs ! nat (b + 1) * d]) = bwd_buf d a b xs"
proof (rule nth_equalityI)
  show "length (bwd_buf d a (b - 1) (xs[nat b := xs ! nat (b + 1) * d])) = length (bwd_buf d a b xs)"
    by simp
next
  fix j assume "j < length (bwd_buf d a (b - 1) (xs[nat b := xs ! nat (b + 1) * d]))"
  then have j: "j < length xs" by simp
  have e: "nat (b - 1 + 1) = nat b" by simp
  show "bwd_buf d a (b - 1) (xs[nat b := xs ! nat (b + 1) * d]) ! j = bwd_buf d a b xs ! j"
  proof (cases "a \<le> int j \<and> int j \<le> b - 1")
    case True
    then have "nat (b + 1 - int j) = Suc (nat (b - 1 + 1 - int j))" by linarith
    moreover have "nat (b + 1) \<noteq> nat b" using assms by linarith
    moreover have "nat b < length xs" using assms by linarith
    ultimately show ?thesis using True j assms by (simp add: bwd_buf_def e)
  next
    case False
    show ?thesis
    proof (cases "int j = b")
      case True
      then have "j = nat b" by simp
      with True j assms show ?thesis by (simp add: bwd_buf_def)
    next
      case F2: False
      then have "j \<noteq> nat b" using assms by linarith
      moreover have "nat (b + 1) \<noteq> nat b" using assms by linarith
      ultimately show ?thesis using False F2 j assms by (auto simp add: bwd_buf_def)
    qed
  qed
qed

lemma bwd_loop:
  assumes "0 \<le> a" "b + 1 < int (length (E_2x s))" "b + 1 < int (length (E_2y s))"
    "b + 1 < int (length (E_2z s))"
  shows "for_loop (rev [a .. b]) (bwd_step ix iy iz) s =
           Some (s\<lparr>E_2x := bwd_buf ix a b (E_2x s), E_2y := bwd_buf iy a b (E_2y s),
                   E_2z := bwd_buf iz a b (E_2z s)\<rparr>)"
  using assms
proof (induction "nat (b - a + 1)" arbitrary: b s)
  case 0
  then have "b < a" by simp
  then show ?case by (simp add: bwd_buf_empty)
next
  case (Suc k)
  then have ab: "a \<le> b" by linarith
  let ?s = "s\<lparr>E_2x := (E_2x s)[nat b := E_2x s ! nat (b + 1) * ix],
               E_2y := (E_2y s)[nat b := E_2y s ! nat (b + 1) * iy],
               E_2z := (E_2z s)[nat b := E_2z s ! nat (b + 1) * iz]\<rparr>"
  have st: "bwd_step ix iy iz b s = Some ?s"
    using Suc.prems ab by (simp add: bwd_step_def rd_def wr_def)
  have k: "k = nat (b - 1 - a + 1)" using Suc.hyps(2) by linarith
  have "for_loop (rev [a .. b - 1]) (bwd_step ix iy iz) ?s =
          Some (?s\<lparr>E_2x := bwd_buf ix a (b - 1) (E_2x ?s),
                    E_2y := bwd_buf iy a (b - 1) (E_2y ?s),
                    E_2z := bwd_buf iz a (b - 1) (E_2z ?s)\<rparr>)"
    using Suc.prems by (intro Suc.hyps(1) [OF k]) simp_all
  then show ?case
    using Suc.prems ab st by (simp add: upto_rec2 [of a b] bwd_buf_step)
qed

subsection \<open>The generated tables and the innermost loop\<close>

lemma length_E2_pow [simp]: "length (E2_pow n d e c) = nat (2 * n)"
  by (simp add: E2_pow_def)

lemma fwd_buf_nth:
  "j < length xs \<Longrightarrow> fwd_buf d a b xs ! j =
     (if a \<le> int j \<and> int j \<le> b then d ^ nat (int j - a + 1) * xs ! nat (a - 1) else xs ! j)"
  by (simp add: fwd_buf_def)

lemma bwd_buf_nth:
  "j < length xs \<Longrightarrow> bwd_buf d a b xs ! j =
     (if a \<le> int j \<and> int j \<le> b then xs ! nat (b + 1) * d ^ nat (b + 1 - int j) else xs ! j)"
  by (simp add: bwd_buf_def)

lemma E2_pow_nth_raw:
  "j < nat (2 * n) \<Longrightarrow> E2_pow n d e c ! j =
     (if n - 1 \<le> int j then d ^ nat (int j - (n - 1)) * c else c * e ^ nat (n - 1 - int j))"
  by (simp add: E2_pow_def)

lemma E2_tab_pow:
  assumes "1 \<le> n" "length xs = nat (2 * n)"
  shows "E2_tab n d e xs = E2_pow n d e (xs ! nat (n - 1))"
proof (rule nth_equalityI)
  show "length (E2_tab n d e xs) = length (E2_pow n d e (xs ! nat (n - 1)))"
    using assms by (simp add: E2_tab_def)
next
  fix j assume "j < length (E2_tab n d e xs)"
  then have j: "j < nat (2 * n)" using assms by (simp add: E2_tab_def)
  then have jx: "j < length xs" and jf: "j < length (fwd_buf d n (2 * n - 1) xs)"
    using assms by simp_all
  have c: "nat (n - 1) < length xs" using assms by linarith
  have c': "\<not> n \<le> int (nat (n - 1))" using assms by linarith
  have n1: "nat (n - 2 + 1) = nat (n - 1)" by simp
  show "E2_tab n d e xs ! j = E2_pow n d e (xs ! nat (n - 1)) ! j"
  proof (cases "n \<le> int j")
    case True
    have u: "int j \<le> 2 * n - 1" using j by linarith
    have h: "nat (int j - n + 1) = nat (int j - (n - 1))" by simp
    have "E2_tab n d e xs ! j = fwd_buf d n (2 * n - 1) xs ! j"
      unfolding E2_tab_def using True by (simp add: bwd_buf_nth [OF jf])
    also have "\<dots> = d ^ nat (int j - (n - 1)) * xs ! nat (n - 1)"
      using True u by (simp add: fwd_buf_nth [OF jx] h)
    finally show ?thesis using True by (simp add: E2_pow_nth_raw [OF j])
  next
    case False
    show ?thesis
    proof (cases "int j = n - 1")
      case T2: True
      then have jn: "j = nat (n - 1)" by linarith
      have "E2_tab n d e xs ! j = fwd_buf d n (2 * n - 1) xs ! j"
        unfolding E2_tab_def using T2 by (simp add: bwd_buf_nth [OF jf])
      also have "\<dots> = xs ! nat (n - 1)"
        unfolding jn using c' by (simp add: fwd_buf_nth [OF c])
      finally show ?thesis using T2 by (simp add: E2_pow_nth_raw [OF j])
    next
      case F2: False
      with False have L: "int j \<le> n - 2" by simp
      have cf: "nat (n - 1) < length (fwd_buf d n (2 * n - 1) xs)" using c by simp
      have h: "nat (n - 2 + 1 - int j) = nat (n - 1 - int j)" by simp
      have "E2_tab n d e xs ! j =
            fwd_buf d n (2 * n - 1) xs ! nat (n - 1) * e ^ nat (n - 1 - int j)"
        unfolding E2_tab_def using L by (simp add: bwd_buf_nth [OF jf] n1 h)
      also have "fwd_buf d n (2 * n - 1) xs ! nat (n - 1) = xs ! nat (n - 1)"
        using c' by (simp add: fwd_buf_nth [OF c])
      finally show ?thesis using False L by (simp add: E2_pow_nth_raw [OF j])
    qed
  qed
qed

lemma gen_E_2_result:
  assumes "1 \<le> M_sp p" "length (E_2x s) = nat (TwoM_sp p)"
    "length (E_2y s) = nat (TwoM_sp p)" "length (E_2z s) = nat (TwoM_sp p)"
  shows "gen_E_2 p dx dy dz ix iy iz s =
           Some (s\<lparr>E_2x := E2_pow (M_sp p) dx ix (E_2x s ! nat (M_sp p - 1)),
                   E_2y := E2_pow (M_sp p) dy iy (E_2y s ! nat (M_sp p - 1)),
                   E_2z := E2_pow (M_sp p) dz iz (E_2z s ! nat (M_sp p - 1))\<rparr>)"
proof -
  have len: "length (E_2x s) = nat (2 * M_sp p)" "length (E_2y s) = nat (2 * M_sp p)"
    "length (E_2z s) = nat (2 * M_sp p)"
    using assms by (simp_all add: TwoM_sp_def)
  have f: "for_loop [M_sp p .. TwoM_sp p - 1] (fwd_step dx dy dz) s =
      Some (s\<lparr>E_2x := fwd_buf dx (M_sp p) (TwoM_sp p - 1) (E_2x s),
              E_2y := fwd_buf dy (M_sp p) (TwoM_sp p - 1) (E_2y s),
              E_2z := fwd_buf dz (M_sp p) (TwoM_sp p - 1) (E_2z s)\<rparr>)"
    using assms by (intro fwd_loop) (simp_all add: TwoM_sp_def)
  have b: "for_loop (rev [0 .. M_sp p - 2]) (bwd_step ix iy iz)
       (s\<lparr>E_2x := fwd_buf dx (M_sp p) (TwoM_sp p - 1) (E_2x s),
              E_2y := fwd_buf dy (M_sp p) (TwoM_sp p - 1) (E_2y s),
              E_2z := fwd_buf dz (M_sp p) (TwoM_sp p - 1) (E_2z s)\<rparr>) =
      Some (s\<lparr>E_2x := E2_tab (M_sp p) dx ix (E_2x s),
              E_2y := E2_tab (M_sp p) dy iy (E_2y s),
              E_2z := E2_tab (M_sp p) dz iz (E_2z s)\<rparr>)"
    using assms by (subst bwd_loop) (simp_all add: TwoM_sp_def E2_tab_def)
  show ?thesis
    using assms(1) len by (simp add: gen_E_2_def f b E2_tab_pow)
qed

lemma E2_pow_nth:
  assumes "1 - n \<le> l" "l \<le> n" "d \<noteq> 0"
  shows "E2_pow n d (1 / d) 1 ! nat (n + l - 1) = power_int d l"
proof -
  have j: "nat (n + l - 1) < nat (2 * n)" using assms by linarith
  have i: "int (nat (n + l - 1)) = n + l - 1" using assms by linarith
  show ?thesis
  proof (cases "0 \<le> l")
    case True
    then have "nat (n + l - 1 - (n - 1)) = nat l" by simp
    then show ?thesis using True assms by (simp add: E2_pow_nth_raw [OF j] i power_int_def)
  next
    case False
    then have "nat (n - 1 - (n + l - 1)) = nat (- l)" by simp
    then show ?thesis using False assms
      by (simp add: E2_pow_nth_raw [OF j] i power_int_def power_one_over divide_inverse)
  qed
qed

lemma acc_fields [simp]:
  "E_2x (acc i vr vi s) = E_2x s" "E_2y (acc i vr vi s) = E_2y s"
  "E_2z (acc i vr vi s) = E_2z s"
  "length (outArrayR (acc i vr vi s)) = length (outArrayR s)"
  "length (outArrayI (acc i vr vi s)) = length (outArrayI s)"
  by (simp_all add: acc_def)

lemma acc_acc:
  assumes "0 \<le> i" "i < int (length (outArrayR s))" "i < int (length (outArrayI s))"
  shows "acc i vr vi (acc i wr' wi s) = acc i (wr' + vr) (wi + vi) s"
  using assms by (simp add: acc_def add.assoc)

lemma acc_zero:
  "acc i 0 0 s = s"
  by (simp add: acc_def)

lemma x_step_eq:
  assumes "0 \<le> i" "i < int (length (outArrayR s))" "i < int (length (outArrayI s))"
  shows "x_step inp p i m1 V1r yind zind l1 s =
    (if okx inp p (E_2x s) m1 yind zind l1
     then Some (acc i (tx inp p (E_2x s) m1 V1r yind zind (ftaur inp) l1)
                      (tx inp p (E_2x s) m1 V1r yind zind (ftaui inp) l1) s)
     else None)"
  using assms
  by (simp add: x_step_def okx_def tx_def acc_def in_rng_def rd_def wr_def cell_x_def Let_def
      wrap_ind_c_def lin_ind_c_def ck_def)

subsection \<open>The nested accumulation loops\<close>

lemma acc_loop:
  assumes step: "\<And>l s. i < int (length (outArrayR s)) \<Longrightarrow> i < int (length (outArrayI s)) \<Longrightarrow>
      body l s = (if ok (E_2x s) (E_2y s) (E_2z s) l
                  then Some (acc i (tr (E_2x s) (E_2y s) (E_2z s) l)
                                   (ti (E_2x s) (E_2y s) (E_2z s) l) s)
                  else None)"
    and "0 \<le> i" "i < int (length (outArrayR s))" "i < int (length (outArrayI s))"
  shows "for_loop ls body s =
    (if \<forall>l\<in>set ls. ok (E_2x s) (E_2y s) (E_2z s) l
     then Some (acc i (\<Sum>l\<leftarrow>ls. tr (E_2x s) (E_2y s) (E_2z s) l)
                      (\<Sum>l\<leftarrow>ls. ti (E_2x s) (E_2y s) (E_2z s) l) s)
     else None)"
  using assms(2-)
proof (induction ls arbitrary: s)
  case Nil
  then show ?case by (simp add: acc_zero)
next
  case (Cons l ls)
  show ?case
  proof (cases "ok (E_2x s) (E_2y s) (E_2z s) l")
    case False
    then show ?thesis using Cons.prems by (simp add: step)
  next
    case True
    let ?s = "acc i (tr (E_2x s) (E_2y s) (E_2z s) l) (ti (E_2x s) (E_2y s) (E_2z s) l) s"
    have "for_loop (l # ls) body s = for_loop ls body ?s"
      using True Cons.prems by (simp add: step)
    also have "\<dots> = (if \<forall>l\<in>set ls. ok (E_2x ?s) (E_2y ?s) (E_2z ?s) l
     then Some (acc i (\<Sum>l\<leftarrow>ls. tr (E_2x ?s) (E_2y ?s) (E_2z ?s) l)
                      (\<Sum>l\<leftarrow>ls. ti (E_2x ?s) (E_2y ?s) (E_2z ?s) l) ?s)
     else None)"
      using Cons.prems by (intro Cons.IH) simp_all
    finally show ?thesis using True Cons.prems by (simp add: acc_acc)
  qed
qed

lemma y_step_eq:
  assumes "0 \<le> i" "i < int (length (outArrayR s))" "i < int (length (outArrayI s))"
  shows "y_step inp p i m1 m2 V2r zind l2 s =
    (if oky inp p (E_2x s) (E_2y s) m1 m2 zind l2
     then Some (acc i (sy inp p (E_2x s) (E_2y s) m1 m2 V2r zind (ftaur inp) l2)
                      (sy inp p (E_2x s) (E_2y s) m1 m2 V2r zind (ftaui inp) l2) s)
     else None)"
proof -
  have L: "for_loop ls (x_step inp p i m1 V yind zind) s =
    (if \<forall>l\<in>set ls. okx inp p (E_2x s) m1 yind zind l
     then Some (acc i (\<Sum>l\<leftarrow>ls. tx inp p (E_2x s) m1 V yind zind (ftaur inp) l)
                      (\<Sum>l\<leftarrow>ls. tx inp p (E_2x s) m1 V yind zind (ftaui inp) l) s)
     else None)" for ls V yind
    using assms
    by (intro acc_loop [where ok = "\<lambda>ex ey ez. okx inp p ex m1 yind zind"
          and tr = "\<lambda>ex ey ez. tx inp p ex m1 V yind zind (ftaur inp)"
          and ti = "\<lambda>ex ey ez. tx inp p ex m1 V yind zind (ftaui inp)"])
       (simp_all add: x_step_eq)
  show ?thesis
    by (simp add: y_step_def L oky_def sy_def rd_def in_rng_def Let_def wrap_ind_c_def ck_def)
qed

lemma z_step_eq:
  assumes "0 \<le> i" "i < int (length (outArrayR s))" "i < int (length (outArrayI s))"
  shows "z_step inp p i m1 m2 m3 V0r l3 s =
    (if okz inp p (E_2x s) (E_2y s) (E_2z s) m1 m2 m3 l3
     then Some (acc i (sz inp p (E_2x s) (E_2y s) (E_2z s) m1 m2 m3 V0r (ftaur inp) l3)
                      (sz inp p (E_2x s) (E_2y s) (E_2z s) m1 m2 m3 V0r (ftaui inp) l3) s)
     else None)"
proof -
  have L: "for_loop ls (y_step inp p i m1 m2 V zind) s =
    (if \<forall>l\<in>set ls. oky inp p (E_2x s) (E_2y s) m1 m2 zind l
     then Some (acc i (\<Sum>l\<leftarrow>ls. sy inp p (E_2x s) (E_2y s) m1 m2 V zind (ftaur inp) l)
                      (\<Sum>l\<leftarrow>ls. sy inp p (E_2x s) (E_2y s) m1 m2 V zind (ftaui inp) l) s)
     else None)" for ls V zind
    using assms
    by (intro acc_loop [where ok = "\<lambda>ex ey ez. oky inp p ex ey m1 m2 zind"
          and tr = "\<lambda>ex ey ez. sy inp p ex ey m1 m2 V zind (ftaur inp)"
          and ti = "\<lambda>ex ey ez. sy inp p ex ey m1 m2 V zind (ftaui inp)"])
       (simp_all add: y_step_eq)
  show ?thesis
    by (simp add: z_step_def L okz_def sz_def rd_def in_rng_def Let_def wrap_ind_c_def ck_def)
qed

lemma z_loop_eq:
  assumes "0 \<le> i" "i < int (length (outArrayR s))" "i < int (length (outArrayI s))"
  shows "for_loop ls (z_step inp p i m1 m2 m3 V0r) s =
    (if \<forall>l\<in>set ls. okz inp p (E_2x s) (E_2y s) (E_2z s) m1 m2 m3 l
     then Some (acc i (\<Sum>l\<leftarrow>ls. sz inp p (E_2x s) (E_2y s) (E_2z s) m1 m2 m3 V0r (ftaur inp) l)
                      (\<Sum>l\<leftarrow>ls. sz inp p (E_2x s) (E_2y s) (E_2z s) m1 m2 m3 V0r (ftaui inp) l) s)
     else None)"
  using assms
  by (intro acc_loop [where ok = "\<lambda>ex ey ez. okz inp p ex ey ez m1 m2 m3"
        and tr = "\<lambda>ex ey ez. sz inp p ex ey ez m1 m2 m3 V0r (ftaur inp)"
        and ti = "\<lambda>ex ey ez. sz inp p ex ey ez m1 m2 m3 V0r (ftaui inp)"])
     (simp_all add: z_step_eq)

lemma PI_nz [simp]: "PI \<noteq> 0"
  by (simp add: PI_def)

lemma lattice_index_eq:
  "lattice_index M_r knot =
     (if int_ok (ax_m M_r knot) then Some (ax_m M_r knot) else None)"
  by (simp add: lattice_index_def to_int_def ck_def ax_m_def c_int_def)

lemma axis_factors_eq:
  "axis_factors M_r (M_r / 2) tau knot (ax_m M_r knot) =
     (if M_r \<noteq> 0 \<and> tau \<noteq> 0
      then Some (ax_E1 M_r tau knot, ax_rho M_r tau knot, 1 / ax_rho M_r tau knot)
      else None)"
proof -
  define x where "x = ax_x M_r knot"
  have x: "knot - real_of_int (ax_m M_r knot) * PI * 2 / M_r = x"
    by (simp add: x_def ax_x_def)
  have y: "real_of_int (ax_m M_r knot) * PI * 2 / M_r - knot = - x"
    using x by linarith
  show ?thesis
    unfolding axis_factors_def fdiv_def ax_E1_def ax_rho_def x_def [symmetric]
    by (simp add: Let_def x y)
qed

subsection \<open>One iteration of the knot loop\<close>

lemma length_E2_of [simp]: "length (E2_of n rho) = nat (2 * n)"
  by (simp add: E2_of_def)

lemma E2_of_centre: "1 \<le> n \<Longrightarrow> E2_of n rho ! nat (n - 1) = 1"
proof -
  assume n: "1 \<le> n"
  then have "nat (n - 1) < nat (2 * n)" by linarith
  then show ?thesis using n by (simp add: E2_of_def E2_pow_nth_raw)
qed

lemma knot_body_eq:
  assumes "inv_state p s" "0 \<le> i" "i < int (length (outArrayR s))"
    "i < int (length (outArrayI s))"
  shows "knot_body inp p i s =
    (if knot_ok inp p i
     then Some (acc i (knot_val inp p (ftaur inp) i) (knot_val inp p (ftaui inp) i)
                  (gen_state p (kx inp i) (ky inp i) (kz inp i) s))
     else None)"
proof -
  have g: "gen_E_2 p (ax_rho (M_rx p) (taux p) x) (ax_rho (M_ry p) (tauy p) y)
             (ax_rho (M_rz p) (tauz p) z)
             (1 / ax_rho (M_rx p) (taux p) x) (1 / ax_rho (M_ry p) (tauy p) y)
             (1 / ax_rho (M_rz p) (tauz p) z) s = Some (gen_state p x y z s)" for x y z
    using assms(1) by (simp add: gen_E_2_result inv_state_def gen_state_def E2_of_def)
  have z: "for_loop [1 - M_sp p .. M_sp p] (z_step inp p i m1 m2 m3 V0r) (gen_state p x y z s) =
    (if \<forall>l\<in>set [1 - M_sp p .. M_sp p]. okz inp p (E_2x (gen_state p x y z s))
           (E_2y (gen_state p x y z s)) (E_2z (gen_state p x y z s)) m1 m2 m3 l
     then Some (acc i
       (\<Sum>l\<leftarrow>[1 - M_sp p .. M_sp p]. sz inp p (E_2x (gen_state p x y z s))
           (E_2y (gen_state p x y z s)) (E_2z (gen_state p x y z s)) m1 m2 m3 V0r (ftaur inp) l)
       (\<Sum>l\<leftarrow>[1 - M_sp p .. M_sp p]. sz inp p (E_2x (gen_state p x y z s))
           (E_2y (gen_state p x y z s)) (E_2z (gen_state p x y z s)) m1 m2 m3 V0r (ftaui inp) l)
       (gen_state p x y z s))
     else None)" for m1 m2 m3 V0r x y z
    using assms(2-) by (subst z_loop_eq) (simp_all add: gen_state_def)
  have f: "E_2x (gen_state p x y z s) = E2_of (M_sp p) (ax_rho (M_rx p) (taux p) x)"
    "E_2y (gen_state p x y z s) = E2_of (M_sp p) (ax_rho (M_ry p) (tauy p) y)"
    "E_2z (gen_state p x y z s) = E2_of (M_sp p) (ax_rho (M_rz p) (tauz p) z)" for x y z
    by (simp_all add: gen_state_def)
  have r: "rd (knots inp) i = (if in_rng (knots inp) i then Some (kx inp i) else None)"
    "rd (knots inp) (i + int (knots_M inp)) =
       (if in_rng (knots inp) (i + int (knots_M inp)) then Some (ky inp i) else None)"
    "rd (knots inp) (i + 2 * int (knots_M inp)) =
       (if in_rng (knots inp) (i + 2 * int (knots_M inp)) then Some (kz inp i) else None)"
    by (simp_all add: rd_def in_rng_def kx_def ky_def kz_def)
  show ?thesis
    unfolding knot_body_def M_rxd2_def M_ryd2_def M_rzd2_def
    by (simp add: lattice_index_eq ck_def r axis_factors_eq g z f knot_ok_def knot_ok_at_def
        knot_val_def knot_val_at_def Let_def)
qed

subsection \<open>The knot loop and the whole function\<close>

lemma inv_state_after:
  assumes "inv_state p s"
  shows "inv_state p (acc i vr vi (gen_state p x y z s))"
  using assms
  by (simp add: inv_state_def gen_state_def E2_of_centre TwoM_sp_def)

lemma knots_loop:
  assumes "inv_state p s"
    "\<forall>i\<in>set js. 0 \<le> i \<and> i < int (length (outArrayR s)) \<and> i < int (length (outArrayI s))"
  shows "if \<forall>i\<in>set js. knot_ok inp p i
         then \<exists>s'. for_loop js (knot_body inp p) s = Some s' \<and> inv_state p s' \<and>
                length (outArrayR s') = length (outArrayR s) \<and>
                length (outArrayI s') = length (outArrayI s) \<and>
                (\<forall>k<length (outArrayR s). outArrayR s' ! k =
                   outArrayR s ! k + (\<Sum>i\<leftarrow>js. if nat i = k then knot_val inp p (ftaur inp) i else 0)) \<and>
                (\<forall>k<length (outArrayI s). outArrayI s' ! k =
                   outArrayI s ! k + (\<Sum>i\<leftarrow>js. if nat i = k then knot_val inp p (ftaui inp) i else 0))
         else for_loop js (knot_body inp p) s = None"
  using assms
proof (induction js arbitrary: s)
  case Nil
  then show ?case by simp
next
  case (Cons i js)
  have i: "0 \<le> i" "i < int (length (outArrayR s))" "i < int (length (outArrayI s))"
    using Cons.prems(2) by simp_all
  note kb = knot_body_eq [OF Cons.prems(1) i, of inp]
  show ?case
  proof (cases "knot_ok inp p i")
    case False
    then show ?thesis by (simp add: kb)
  next
    case True
    define s1 where "s1 = acc i (knot_val inp p (ftaur inp) i) (knot_val inp p (ftaui inp) i)
                  (gen_state p (kx inp i) (ky inp i) (kz inp i) s)"
    have st: "knot_body inp p i s = Some s1" using True by (simp add: kb s1_def)
    have inv1: "inv_state p s1" unfolding s1_def by (rule inv_state_after [OF Cons.prems(1)])
    have len1: "length (outArrayR s1) = length (outArrayR s)"
      "length (outArrayI s1) = length (outArrayI s)"
      by (simp_all add: s1_def gen_state_def)
    have o1: "outArrayR s1 ! k = outArrayR s ! k + (if nat i = k then knot_val inp p (ftaur inp) i else 0)"
      if "k < length (outArrayR s)" for k
      using that by (auto simp add: s1_def acc_def gen_state_def nth_list_update)
    have o2: "outArrayI s1 ! k = outArrayI s ! k + (if nat i = k then knot_val inp p (ftaui inp) i else 0)"
      if "k < length (outArrayI s)" for k
      using that by (auto simp add: s1_def acc_def gen_state_def nth_list_update)
    have r1: "\<forall>i\<in>set js. 0 \<le> i \<and> i < int (length (outArrayR s1)) \<and> i < int (length (outArrayI s1))"
      using Cons.prems(2) len1 by simp
    note IH = Cons.IH [OF inv1 r1]
    show ?thesis
    proof (cases "\<forall>i\<in>set js. knot_ok inp p i")
      case F: False
      with IH have "for_loop js (knot_body inp p) s1 = None" by simp
      then show ?thesis using F st by simp
    next
      case T: True
      with IH obtain s' where s': "for_loop js (knot_body inp p) s1 = Some s'" "inv_state p s'"
        "length (outArrayR s') = length (outArrayR s1)"
        "length (outArrayI s') = length (outArrayI s1)"
        "\<forall>k<length (outArrayR s1). outArrayR s' ! k =
           outArrayR s1 ! k + (\<Sum>i\<leftarrow>js. if nat i = k then knot_val inp p (ftaur inp) i else 0)"
        "\<forall>k<length (outArrayI s1). outArrayI s' ! k =
           outArrayI s1 ! k + (\<Sum>i\<leftarrow>js. if nat i = k then knot_val inp p (ftaui inp) i else 0)"
        by auto
      have "for_loop (i # js) (knot_body inp p) s = Some s'" using st s'(1) by simp
      moreover have "\<forall>k<length (outArrayR s). outArrayR s' ! k =
           outArrayR s ! k + (\<Sum>i\<leftarrow>i # js. if nat i = k then knot_val inp p (ftaur inp) i else 0)"
        using s'(5) len1 o1 by simp
      moreover have "\<forall>k<length (outArrayI s). outArrayI s' ! k =
           outArrayI s ! k + (\<Sum>i\<leftarrow>i # js. if nat i = k then knot_val inp p (ftaui inp) i else 0)"
        using s'(6) len1 o2 by simp
      ultimately show ?thesis using True T s'(2,3,4) len1 by simp
    qed
  qed
qed

lemma sum_list_upto_delta:
  assumes "0 \<le> a"
  shows "(\<Sum>i\<leftarrow>[a .. b]. if nat i = k then f i else 0) =
         (if a \<le> int k \<and> int k \<le> b then f (int k) else (0::real))"
proof -
  have "(\<Sum>i\<leftarrow>[a .. b]. if nat i = k then f i else 0) =
        (\<Sum>i\<in>{a .. b}. if nat i = k then f i else 0)"
    by (simp add: sum_list_distinct_conv_sum_set)
  also have "\<dots> = (\<Sum>i\<in>{a .. b}. if int k = i then f i else 0)"
    using assms by (intro sum.cong) auto
  also have "\<dots> = (if a \<le> int k \<and> int k \<le> b then f (int k) else 0)"
    by (simp add: sum.delta)
  finally show ?thesis .
qed

lemma read_Scales_eq:
  "read_Scales sc =
     (if 7 \<le> length sc \<and> int_ok (c_int (sc ! 0)) then Some (the_params sc) else None)"
  by (simp add: read_Scales_def rd_def the_params_def to_int_def ck_def)

lemma conversions_eq:
  "conversions inp p = (if conv_ok inp p then Some () else None)"
  by (simp add: conversions_def conv_ok_def to_int_def ck_def)

lemma length_zero_buf [simp]: "length (zero_buf a b xs) = length xs"
  by (simp add: zero_buf_def)

lemma zero_buf_empty: "b < a \<Longrightarrow> zero_buf a b xs = xs"
  by (rule nth_equalityI) (auto simp: zero_buf_def)

lemma zero_buf_step:
  assumes "0 \<le> a" "a \<le> b" "b < int (length xs)"
  shows "zero_buf (a + 1) b (xs[nat a := 0]) = zero_buf a b xs"
proof (rule nth_equalityI)
  show "length (zero_buf (a + 1) b (xs[nat a := 0])) = length (zero_buf a b xs)" by simp
next
  fix j assume "j < length (zero_buf (a + 1) b (xs[nat a := 0]))"
  then have j: "j < length xs" by simp
  show "zero_buf (a + 1) b (xs[nat a := 0]) ! j = zero_buf a b xs ! j"
  proof (cases "int j = a")
    case True
    then have "j = nat a" by simp
    with True j assms show ?thesis by (simp add: zero_buf_def)
  next
    case False
    then have "j \<noteq> nat a" using assms by linarith
    moreover have "(a + 1 \<le> int j) = (a \<le> int j)" using False by linarith
    ultimately show ?thesis using j by (simp add: zero_buf_def)
  qed
qed

lemma zero_loop:
  assumes "0 \<le> a" "b < int (length (outArrayR s))" "b < int (length (outArrayI s))"
  shows "for_loop [a .. b] zero_step s =
           Some (s\<lparr>outArrayR := zero_buf a b (outArrayR s),
                   outArrayI := zero_buf a b (outArrayI s)\<rparr>)"
  using assms
proof (induction "nat (b - a + 1)" arbitrary: a s)
  case 0
  then have "b < a" by simp
  then show ?case by (simp add: zero_buf_empty)
next
  case (Suc k)
  then have ab: "a \<le> b" by linarith
  let ?s = "s\<lparr>outArrayR := (outArrayR s)[nat a := 0], outArrayI := (outArrayI s)[nat a := 0]\<rparr>"
  have st: "zero_step a s = Some ?s"
    using Suc.prems ab by (simp add: zero_step_def wr_def)
  have k: "k = nat (b - (a + 1) + 1)" using Suc.hyps(2) by linarith
  have "for_loop [a + 1 .. b] zero_step ?s =
          Some (?s\<lparr>outArrayR := zero_buf (a + 1) b (outArrayR ?s),
                    outArrayI := zero_buf (a + 1) b (outArrayI ?s)\<rparr>)"
    using Suc.prems by (intro Suc.hyps(1) [OF k]) simp_all
  then show ?case
    using Suc.prems ab st by (simp add: upto_rec1 [of a b] zero_buf_step)
qed

lemma length_malloc [simp]: "length (malloc n junk) = nat n"
  by (simp add: malloc_def)

lemma seed_E_2_eq:
  assumes "length (E_2x s) = nat (TwoM_sp p)" "length (E_2y s) = nat (TwoM_sp p)"
    "length (E_2z s) = nat (TwoM_sp p)"
  shows "seed_E_2 p s =
    (if 1 \<le> M_sp p
     then Some (s\<lparr>E_2x := (E_2x s)[nat (M_sp p - 1) := 1],
                  E_2y := (E_2y s)[nat (M_sp p - 1) := 1],
                  E_2z := (E_2z s)[nat (M_sp p - 1) := 1]\<rparr>)
     else None)"
  using assms by (auto simp add: seed_E_2_def wr_def TwoM_sp_def)

lemma mexFunction_eq:
  "mexFunction uninit inp =
     (if run_ok inp then Some (run_out inp (ftaur inp), run_out inp (ftaui inp)) else None)"
proof (cases "7 \<le> length (Scales inp) \<and> int_ok (c_int (Scales inp ! 0)) \<and>
      conv_ok inp (the_params (Scales inp))")
  case False
  then show ?thesis
    by (auto simp add: mexFunction_def read_Scales_eq conversions_eq run_ok_def)
next
  case True
  define p where "p = the_params (Scales inp)"
  define M where "M = knots_M inp"
  define s0 where "s0 = alloc_state uninit inp p"
  define sz0 where "sz0 = s0\<lparr>outArrayR := zero_buf 0 (int M - 1) (outArrayR s0),
                   outArrayI := zero_buf 0 (int M - 1) (outArrayI s0)\<rparr>"
  have l0: "length (outArrayR s0) = M" "length (outArrayI s0) = M"
    "length (E_2x s0) = nat (TwoM_sp p)" "length (E_2y s0) = nat (TwoM_sp p)"
    "length (E_2z s0) = nat (TwoM_sp p)"
    by (simp_all add: s0_def alloc_state_def M_def)
  have z: "for_loop [0 .. int M - 1] zero_step s0 = Some sz0"
    unfolding sz0_def using l0 by (intro zero_loop) simp_all
  have lz: "length (outArrayR sz0) = M" "length (outArrayI sz0) = M"
    "length (E_2x sz0) = nat (TwoM_sp p)" "length (E_2y sz0) = nat (TwoM_sp p)"
    "length (E_2z sz0) = nat (TwoM_sp p)"
    using l0 by (simp_all add: sz0_def)
  have zz: "outArrayR sz0 ! k = 0" "outArrayI sz0 ! k = 0" if "k < M" for k
    using that l0 by (simp_all add: sz0_def zero_buf_def)
  note sd = seed_E_2_eq [OF lz(3,4,5)]
  have head: "mexFunction uninit inp =
      (seed_E_2 p sz0 \<bind> (\<lambda>s1. for_loop [0 .. int M - 1] (knot_body inp p) s1 \<bind>
         (\<lambda>s2. Some (outArrayR s2, outArrayI s2))))"
    using True z by (simp add: mexFunction_def read_Scales_eq conversions_eq p_def [symmetric]
        M_def [symmetric] s0_def [symmetric])
  show ?thesis
  proof (cases "1 \<le> M_sp p")
    case False
    then show ?thesis by (simp add: head sd run_ok_def p_def [symmetric])
  next
    case n: True
    define s1 where "s1 = sz0\<lparr>E_2x := (E_2x sz0)[nat (M_sp p - 1) := 1],
                  E_2y := (E_2y sz0)[nat (M_sp p - 1) := 1],
                  E_2z := (E_2z sz0)[nat (M_sp p - 1) := 1]\<rparr>"
    have sd1: "seed_E_2 p sz0 = Some s1" using n by (simp add: sd s1_def)
    have c: "nat (M_sp p - 1) < nat (TwoM_sp p)" using n by (simp add: TwoM_sp_def)
    have inv1: "inv_state p s1"
      using n lz c by (simp add: inv_state_def s1_def)
    have l1: "length (outArrayR s1) = M" "length (outArrayI s1) = M"
      using lz by (simp_all add: s1_def)
    have z1: "outArrayR s1 ! k = 0" "outArrayI s1 ! k = 0" if "k < M" for k
      using zz [OF that] by (simp_all add: s1_def)
    have rng: "\<forall>i\<in>set [0 .. int M - 1]. 0 \<le> i \<and> i < int (length (outArrayR s1)) \<and>
        i < int (length (outArrayI s1))"
      using l1 by simp
    note KL = knots_loop [OF inv1 rng, of inp]
    show ?thesis
    proof (cases "\<forall>i\<in>set [0 .. int M - 1]. knot_ok inp p i")
      case False
      with KL have "for_loop [0 .. int M - 1] (knot_body inp p) s1 = None" by simp
      then show ?thesis using False
        by (simp add: head sd1 run_ok_def p_def [symmetric] M_def [symmetric])
    next
      case ok: True
      with KL obtain s2 where s2: "for_loop [0 .. int M - 1] (knot_body inp p) s1 = Some s2"
        "length (outArrayR s2) = length (outArrayR s1)"
        "length (outArrayI s2) = length (outArrayI s1)"
        "\<forall>k<length (outArrayR s1). outArrayR s2 ! k =
           outArrayR s1 ! k + (\<Sum>i\<leftarrow>[0 .. int M - 1]. if nat i = k then knot_val inp p (ftaur inp) i else 0)"
        "\<forall>k<length (outArrayI s1). outArrayI s2 ! k =
           outArrayI s1 ! k + (\<Sum>i\<leftarrow>[0 .. int M - 1]. if nat i = k then knot_val inp p (ftaui inp) i else 0)"
        by auto
      have R: "outArrayR s2 = run_out inp (ftaur inp)"
      proof (rule nth_equalityI)
        show "length (outArrayR s2) = length (run_out inp (ftaur inp))"
          using s2(2) l1 by (simp add: run_out_def M_def)
      next
        fix k assume "k < length (outArrayR s2)"
        then have k: "k < M" using s2(2) l1 by simp
        then show "outArrayR s2 ! k = run_out inp (ftaur inp) ! k"
          using s2(4) l1 z1 [OF k]
          by (simp add: sum_list_upto_delta run_out_def p_def M_def)
      qed
      have I: "outArrayI s2 = run_out inp (ftaui inp)"
      proof (rule nth_equalityI)
        show "length (outArrayI s2) = length (run_out inp (ftaui inp))"
          using s2(3) l1 by (simp add: run_out_def M_def)
      next
        fix k assume "k < length (outArrayI s2)"
        then have k: "k < M" using s2(3) l1 by simp
        then show "outArrayI s2 ! k = run_out inp (ftaui inp) ! k"
          using s2(5) l1 z1 [OF k]
          by (simp add: sum_list_upto_delta run_out_def p_def M_def)
      qed
      show ?thesis
        using ok n True
        by (simp add: head sd1 s2(1) R I run_ok_def p_def [symmetric] M_def [symmetric])
    qed
  qed
qed

subsection \<open>Frames of the recurrences and the central slot\<close>

lemma E2_of_eq_pow:
  assumes "rho \<noteq> 0" "1 \<le> n"
  shows "E2_of n rho = E_2_pow n rho"
proof (rule nth_equalityI)
  show "length (E2_of n rho) = length (E_2_pow n rho)" by (simp add: E_2_pow_def)
next
  fix j assume "j < length (E2_of n rho)"
  then have j: "j < nat (2 * n)" by simp
  define l where "l = int j - n + 1"
  have l: "1 - n \<le> l" "l \<le> n" using j by (simp_all add: l_def)
  have e: "nat (n + l - 1) = j" by (simp add: l_def)
  have "E2_of n rho ! nat (n + l - 1) = power_int rho l"
    unfolding E2_of_def by (rule E2_pow_nth [OF l assms(1)])
  then show "E2_of n rho ! j = E_2_pow n rho ! j"
    using j by (simp add: e E_2_pow_def l_def)
qed

lemma E_2_pow_nth:
  assumes "1 - n \<le> l" "l \<le> n"
  shows "E_2_pow n rho ! nat (n + l - 1) = power_int rho l"
proof -
  have j: "nat (n + l - 1) < nat (2 * n)" using assms by linarith
  have i: "int (nat (n + l - 1)) - n + 1 = l" using assms by linarith
  have "E_2_pow n rho ! nat (n + l - 1) = power_int rho (int (nat (n + l - 1)) - n + 1)"
    unfolding E_2_pow_def using j by (subst nth_map) simp_all
  then show ?thesis by (simp only: i)
qed

lemma gen_E_2_pow:
  assumes "rx \<noteq> 0" "ry \<noteq> 0" "rz \<noteq> 0" "inv_state p s"
  shows "gen_E_2 p rx ry rz (1 / rx) (1 / ry) (1 / rz) s =
           Some (s\<lparr>E_2x := E_2_pow (M_sp p) rx, E_2y := E_2_pow (M_sp p) ry,
                   E_2z := E_2_pow (M_sp p) rz\<rparr>)"
proof -
  have n: "1 \<le> M_sp p" using assms(4) by (simp add: inv_state_def)
  have "gen_E_2 p rx ry rz (1 / rx) (1 / ry) (1 / rz) s =
           Some (s\<lparr>E_2x := E2_of (M_sp p) rx, E_2y := E2_of (M_sp p) ry,
                   E_2z := E2_of (M_sp p) rz\<rparr>)"
    using assms(4) by (simp add: gen_E_2_result inv_state_def E2_of_def)
  then show ?thesis using assms(1-3) n by (simp add: E2_of_eq_pow)
qed

lemma for_loop_inv:
  assumes "for_loop js body s = Some t" "P s"
    "\<And>j s t. j \<in> set js \<Longrightarrow> P s \<Longrightarrow> body j s = Some t \<Longrightarrow> P t"
  shows "P t"
  using assms
proof (induction js arbitrary: s)
  case Nil
  then show ?case by simp
next
  case (Cons j js)
  from Cons.prems(1) obtain s1 where s1: "body j s = Some s1" "for_loop js body s1 = Some t"
    by (auto split: option.splits)
  have "P s1" using Cons.prems(3) [OF _ Cons.prems(2) s1(1)] by simp
  moreover have "P v" if "k \<in> set js" "P u" "body k u = Some v" for k u v
    using Cons.prems(3) [of k u v] that by simp
  ultimately show ?case by (rule Cons.IH [OF s1(2)])
qed

lemma unchanged_outside_refl: "unchanged_outside a b xs xs"
  by (simp add: unchanged_outside_def)

lemma unchanged_outside_trans:
  "unchanged_outside a b xs ys \<Longrightarrow> unchanged_outside a b ys zs \<Longrightarrow> unchanged_outside a b xs zs"
  by (simp add: unchanged_outside_def)

lemma unchanged_outside_update:
  "0 \<le> j \<Longrightarrow> a \<le> j \<Longrightarrow> j \<le> b \<Longrightarrow> unchanged_outside a b xs (xs[nat j := v])"
  by (auto simp add: unchanged_outside_def nth_list_update)

lemma fwd_step_frame:
  assumes "fwd_step dx dy dz j s = Some t" "a \<le> j" "j \<le> b"
  shows "bufs_unchanged a b s t"
  using assms
  by (auto simp add: fwd_step_def wr_def bind_eq_Some_conv bufs_unchanged_def
        unchanged_outside_update split: if_splits)

lemma bwd_step_frame:
  assumes "bwd_step dx dy dz j s = Some t" "a \<le> j" "j \<le> b"
  shows "bufs_unchanged a b s t"
  using assms
  by (auto simp add: bwd_step_def wr_def bind_eq_Some_conv bufs_unchanged_def
        unchanged_outside_update split: if_splits)

lemma bufs_unchanged_trans:
  "bufs_unchanged a b s t \<Longrightarrow> bufs_unchanged a b t u \<Longrightarrow> bufs_unchanged a b s u"
  unfolding bufs_unchanged_def by (blast intro: unchanged_outside_trans)

lemma fwd_loop_frame:
  assumes "for_loop js (fwd_step dx dy dz) s = Some t" "\<forall>j\<in>set js. a \<le> j \<and> j \<le> b"
  shows "bufs_unchanged a b s t"
proof (rule for_loop_inv [OF assms(1), where P = "bufs_unchanged a b s"])
  show "bufs_unchanged a b s s" by (simp add: bufs_unchanged_def unchanged_outside_refl)
next
  fix j u v assume "j \<in> set js" "bufs_unchanged a b s u" "fwd_step dx dy dz j u = Some v"
  then show "bufs_unchanged a b s v"
    using assms(2) by (blast intro: bufs_unchanged_trans fwd_step_frame)
qed

lemma bwd_loop_frame:
  assumes "for_loop js (bwd_step dx dy dz) s = Some t" "\<forall>j\<in>set js. a \<le> j \<and> j \<le> b"
  shows "bufs_unchanged a b s t"
proof (rule for_loop_inv [OF assms(1), where P = "bufs_unchanged a b s"])
  show "bufs_unchanged a b s s" by (simp add: bufs_unchanged_def unchanged_outside_refl)
next
  fix j u v assume "j \<in> set js" "bufs_unchanged a b s u" "bwd_step dx dy dz j u = Some v"
  then show "bufs_unchanged a b s v"
    using assms(2) by (blast intro: bufs_unchanged_trans bwd_step_frame)
qed

lemma x_step_bufs:
  "x_step inp p i m1 V1r yind zind l1 s = Some t \<Longrightarrow>
     E_2x t = E_2x s \<and> E_2y t = E_2y s \<and> E_2z t = E_2z s"
  by (auto simp add: x_step_def bind_eq_Some_conv Let_def)

lemma y_step_bufs:
  assumes "y_step inp p i m1 m2 V2r zind l2 s = Some t"
  shows "E_2x t = E_2x s \<and> E_2y t = E_2y s \<and> E_2z t = E_2z s"
proof -
  from assms obtain V yind where
    "for_loop [1 - M_sp p .. M_sp p] (x_step inp p i m1 V yind zind) s = Some t"
    by (auto simp add: y_step_def bind_eq_Some_conv Let_def)
  then show ?thesis
    by (rule for_loop_inv [where P = "\<lambda>u. E_2x u = E_2x s \<and> E_2y u = E_2y s \<and> E_2z u = E_2z s"])
       (auto dest: x_step_bufs)
qed

lemma z_step_bufs:
  assumes "z_step inp p i m1 m2 m3 V0r l3 s = Some t"
  shows "E_2x t = E_2x s \<and> E_2y t = E_2y s \<and> E_2z t = E_2z s"
proof -
  from assms obtain V zind where
    "for_loop [1 - M_sp p .. M_sp p] (y_step inp p i m1 m2 V zind) s = Some t"
    by (auto simp add: z_step_def bind_eq_Some_conv Let_def)
  then show ?thesis
    by (rule for_loop_inv [where P = "\<lambda>u. E_2x u = E_2x s \<and> E_2y u = E_2y s \<and> E_2z u = E_2z s"])
       (auto dest: y_step_bufs)
qed

lemma centre_ok_unchanged:
  assumes "centre_ok p s" "bufs_unchanged a b s t" "\<not> (a \<le> M_sp p - 1 \<and> M_sp p - 1 \<le> b)"
  shows "centre_ok p t"
proof -
  have n: "1 \<le> M_sp p" "M_sp p - 1 < int (length (E_2x s))"
    "M_sp p - 1 < int (length (E_2y s))" "M_sp p - 1 < int (length (E_2z s))"
    and c: "centre_one p s"
    using assms(1) by (simp_all add: centre_ok_def)
  have i: "int (nat (M_sp p - 1)) = M_sp p - 1" using n by simp
  have k: "nat (M_sp p - 1) < length (E_2x s)" "nat (M_sp p - 1) < length (E_2y s)"
    "nat (M_sp p - 1) < length (E_2z s)"
    using n by linarith+
  have u: "unchanged_outside a b (E_2x s) (E_2x t)" "unchanged_outside a b (E_2y s) (E_2y t)"
    "unchanged_outside a b (E_2z s) (E_2z t)"
    using assms(2) by (simp_all add: bufs_unchanged_def)
  have l: "length (E_2x t) = length (E_2x s)" "length (E_2y t) = length (E_2y s)"
    "length (E_2z t) = length (E_2z s)"
    using u by (simp_all add: unchanged_outside_def)
  have "E_2x t ! nat (M_sp p - 1) = E_2x s ! nat (M_sp p - 1)"
    "E_2y t ! nat (M_sp p - 1) = E_2y s ! nat (M_sp p - 1)"
    "E_2z t ! nat (M_sp p - 1) = E_2z s ! nat (M_sp p - 1)"
    using u k assms(3) i unfolding unchanged_outside_def by metis+
  then show ?thesis
    using n c l by (simp add: centre_ok_def centre_one_def)
qed

lemma knot_body_centre:
  assumes "knot_body inp p i s = Some t" "centre_ok p s"
  shows "centre_ok p t"
proof -
  from assms(1) obtain dx dy dz ix iy iz m1 m2 m3 V0r s2 where
    g: "gen_E_2 p dx dy dz ix iy iz s = Some s2" and
    z: "for_loop [1 - M_sp p .. M_sp p] (z_step inp p i m1 m2 m3 V0r) s2 = Some t"
    by (auto simp add: knot_body_def bind_eq_Some_conv Let_def split: prod.splits)
  from g obtain sf where
    f: "for_loop [M_sp p .. TwoM_sp p - 1] (fwd_step dx dy dz) s = Some sf" and
    b: "for_loop (rev [0 .. M_sp p - 2]) (bwd_step ix iy iz) sf = Some s2"
    by (auto simp add: gen_E_2_def bind_eq_Some_conv)
  have "bufs_unchanged (M_sp p) (TwoM_sp p - 1) s sf"
    by (rule fwd_loop_frame [OF f]) simp
  then have c1: "centre_ok p sf" by (rule centre_ok_unchanged [OF assms(2)]) simp
  have "bufs_unchanged 0 (M_sp p - 2) sf s2"
    by (rule bwd_loop_frame [OF b]) simp
  then have c2: "centre_ok p s2" by (rule centre_ok_unchanged [OF c1]) simp
  have "E_2x t = E_2x s2 \<and> E_2y t = E_2y s2 \<and> E_2z t = E_2z s2"
    by (rule for_loop_inv [OF z, where P = "\<lambda>u. E_2x u = E_2x s2 \<and> E_2y u = E_2y s2 \<and> E_2z u = E_2z s2"])
       (auto dest: z_step_bufs)
  then show ?thesis using c2 by (simp add: centre_ok_def centre_one_def)
qed

lemma seed_centre:
  assumes "seed_E_2 p s0 = Some s1"
  shows "centre_ok p s1"
  using assms
  by (auto simp add: seed_E_2_def wr_def bind_eq_Some_conv centre_ok_def centre_one_def
        split: if_splits)

subsection \<open>Integer grid extents\<close>

lemma c_int_of_int [simp]: "c_int (of_int k) = k"
  by (simp add: c_int_def)

lemma wrap_ind_even:
  assumes "even N"
  shows "wrap_ind (of_int N) (of_int N / 2) c = wrapped N c"
proof -
  obtain H where N: "N = 2 * H" using assms by (elim evenE)
  have h: "real_of_int N / 2 = of_int H" by (simp add: N)
  have d: "N div 2 = H" by (simp add: N)
  have a: "(0 \<le> real_of_int c + real_of_int H) = (0 \<le> c + H)"
    by (metis of_int_0_le_iff of_int_add)
  have b: "(real_of_int c < real_of_int H) = (c < H)" by simp
  have e: "real_of_int c + real_of_int k * real_of_int N + real_of_int H =
           real_of_int (c + k * N + H)" for k
    by simp
  show ?thesis
    unfolding wrap_ind_def Let_def h a b e c_int_of_int wrapped_def d
    by (auto simp add: c_bool_def)
qed

lemma wrapped_bounds:
  assumes "even N" "0 < N" "- (N div 2) \<le> c" "c < N + N div 2"
  shows "0 \<le> wrapped N c \<and> wrapped N c < N"
proof -
  obtain H where N: "N = 2 * H" using assms(1) by (elim evenE)
  have d: "N div 2 = H" by (simp add: N)
  show ?thesis using assms unfolding wrapped_def d by (auto simp add: N)
qed

lemma wrapped_inj:
  assumes "even N" "0 < N" "- (N div 2) \<le> c" "c < N + N div 2"
    "- (N div 2) \<le> c'" "c' < N + N div 2" "\<bar>c - c'\<bar> < N" "wrapped N c = wrapped N c'"
  shows "c = c'"
proof -
  obtain H where N: "N = 2 * H" using assms(1) by (elim evenE)
  have d: "N div 2 = H" by (simp add: N)
  show ?thesis using assms unfolding wrapped_def d by (auto simp add: N split: if_splits)
qed

lemma window_candidate:
  fixes N n m l :: int
  assumes "even N" "0 < N" "1 \<le> n" "2 * n \<le> N" "0 \<le> m" "m < N" "1 - n \<le> l" "l \<le> n"
  shows "- (N div 2) \<le> m + l \<and> m + l < N + N div 2"
proof -
  obtain H where N: "N = 2 * H" using assms(1) by (elim evenE)
  have d: "N div 2 = H" by (simp add: N)
  show ?thesis using assms unfolding d by (auto simp add: N)
qed

lemma lin_ind_int:
  assumes "M_rx p = of_int Nx" "M_ry p = of_int Ny"
  shows "lin_ind p x y z = x + Nx * y + Nx * Ny * z"
proof -
  have "N2 p = Nx * Ny"
    using assms by (simp add: N2_def flip: of_int_mult)
  moreover have "real_of_int x + real_of_int Nx * real_of_int y + real_of_int (Nx * Ny * z) =
                 real_of_int (x + Nx * y + Nx * Ny * z)"
    by simp
  ultimately show ?thesis
    unfolding lin_ind_def assms by (simp only: c_int_of_int)
qed

lemma lin_bounds:
  fixes x y z Nx Ny Nz :: int
  assumes "0 \<le> x" "x < Nx" "0 \<le> y" "y < Ny" "0 \<le> z" "z < Nz"
  shows "0 \<le> x + Nx * y + Nx * Ny * z \<and> x + Nx * y + Nx * Ny * z < Nx * Ny * Nz"
proof -
  have Nx: "0 < Nx" and Ny: "0 < Ny" using assms by linarith+
  have a: "Nx * y \<le> Nx * (Ny - 1)" using assms Nx by (intro mult_left_mono) simp_all
  have b: "Nx * Ny * z \<le> Nx * Ny * (Nz - 1)"
    using assms Nx Ny by (intro mult_left_mono) simp_all
  have c: "0 \<le> Nx * y" "0 \<le> Nx * Ny * z" using assms Nx Ny by simp_all
  have "x + Nx * y + Nx * Ny * z \<le> (Nx - 1) + Nx * (Ny - 1) + Nx * Ny * (Nz - 1)"
    using a b assms by linarith
  also have "\<dots> = Nx * Ny * Nz - 1" by (simp add: algebra_simps)
  finally show ?thesis using c assms by simp
qed

lemma lin_inj:
  fixes x y z x' y' z' Nx Ny :: int
  assumes "0 \<le> x" "x < Nx" "0 \<le> y" "y < Ny" "0 \<le> x'" "x' < Nx" "0 \<le> y'" "y' < Ny"
    "x + Nx * y + Nx * Ny * z = x' + Nx * y' + Nx * Ny * z'"
  shows "x = x' \<and> y = y' \<and> z = z'"
proof -
  have e: "x + Nx * (y + Ny * z) = x' + Nx * (y' + Ny * z')"
    using assms(9) by (simp add: algebra_simps)
  have "(x + Nx * (y + Ny * z)) mod Nx = x" "(x' + Nx * (y' + Ny * z')) mod Nx = x'"
    using assms by simp_all
  with e have x: "x = x'" by simp
  have "(x + Nx * (y + Ny * z)) div Nx = y + Ny * z"
    "(x' + Nx * (y' + Ny * z')) div Nx = y' + Ny * z'"
    using assms by simp_all
  with e have f: "y + Ny * z = y' + Ny * z'" by simp
  have "(y + Ny * z) mod Ny = y" "(y' + Ny * z') mod Ny = y'" using assms by simp_all
  with f have y: "y = y'" by simp
  have "(y + Ny * z) div Ny = z" "(y' + Ny * z') div Ny = z'" using assms by simp_all
  with f have "z = z'" by simp
  with x y show ?thesis by simp
qed

subsection \<open>The accumulated sum, term by term\<close>

lemma knot_val_at_flat:
  "knot_val_at inp p g x y z =
     (\<Sum>l3\<leftarrow>window p. \<Sum>l2\<leftarrow>window p. \<Sum>l1\<leftarrow>window p.
        weight inp p x y z l1 l2 l3 * g ! nat (cell p x y z l1 l2 l3))"
  by (simp add: knot_val_at_def sz_def sy_def tx_def weight_def cell_def cell_x_def window_def)

lemma window_index:
  assumes "l \<in> set (window p)"
  shows "0 \<le> M_sp p + l - 1 \<and> M_sp p + l - 1 < 2 * M_sp p"
  using assms by (auto simp add: window_def)

lemma in_rng_E2_of:
  assumes "l \<in> set (window p)"
  shows "in_rng (E2_of (M_sp p) rho) (M_sp p + l - 1)"
  using window_index [OF assms] by (simp add: in_rng_def)

lemma in_rng_table:
  assumes "l \<in> set (window p)" "nat (2 * M_sp p) \<le> length tab"
  shows "in_rng tab (M_sp p + l - 1)"
  using window_index [OF assms(1)] assms(2) unfolding in_rng_def by linarith

lemma knot_ok_at_cells:
  assumes "knot_ok_at inp p x y z" "l1 \<in> set (window p)" "l2 \<in> set (window p)"
    "l3 \<in> set (window p)"
  shows "in_rng (ftaur inp) (cell p x y z l1 l2 l3) \<and> in_rng (ftaui inp) (cell p x y z l1 l2 l3)"
  using assms
  by (simp add: knot_ok_at_def okz_def oky_def okx_def cell_def cell_x_def window_def)

lemma knot_ok_atI:
  assumes nz: "M_rx p \<noteq> 0" "taux p \<noteq> 0" "M_ry p \<noteq> 0" "tauy p \<noteq> 0" "M_rz p \<noteq> 0"
      "tauz p \<noteq> 0"
    and m: "int_ok (ax_m (M_rx p) x)" "int_ok (ax_m (M_ry p) y)" "int_ok (ax_m (M_rz p) z)"
    and t: "nat (2 * M_sp p) \<le> length (E_3x inp)" "nat (2 * M_sp p) \<le> length (E_3y inp)"
      "nat (2 * M_sp p) \<le> length (E_3z inp)"
    and ax: "\<And>l. l \<in> set (window p) \<Longrightarrow>
      int_ok (ax_m (M_rx p) x + l) \<and> int_ok (ax_m (M_ry p) y + l) \<and>
      int_ok (ax_m (M_rz p) z + l) \<and>
      int_ok (wrap_ind (M_rx p) (M_rxd2 p) (ax_m (M_rx p) x + l)) \<and>
      int_ok (wrap_ind (M_ry p) (M_ryd2 p) (ax_m (M_ry p) y + l)) \<and>
      int_ok (wrap_ind (M_rz p) (M_rzd2 p) (ax_m (M_rz p) z + l)) \<and>
      int_ok (N2 p * wrap_ind (M_rz p) (M_rzd2 p) (ax_m (M_rz p) z + l))"
    and c: "\<And>l1 l2 l3. l1 \<in> set (window p) \<Longrightarrow> l2 \<in> set (window p) \<Longrightarrow> l3 \<in> set (window p) \<Longrightarrow>
      int_ok (cell p x y z l1 l2 l3) \<and>
      in_rng (ftaur inp) (cell p x y z l1 l2 l3) \<and> in_rng (ftaui inp) (cell p x y z l1 l2 l3)"
  shows "knot_ok_at inp p x y z"
proof -
  have X: "okx inp p (E2_of (M_sp p) rx) (ax_m (M_rx p) x)
             (wrap_ind (M_ry p) (M_ryd2 p) (ax_m (M_ry p) y + l2))
             (wrap_ind (M_rz p) (M_rzd2 p) (ax_m (M_rz p) z + l3)) l1"
    if "l1 \<in> set (window p)" "l2 \<in> set (window p)" "l3 \<in> set (window p)" for l1 l2 l3 rx
    unfolding okx_def
    using ax [OF that(1)] ax [OF that(3)] c [OF that] that(1)
    by (simp add: in_rng_E2_of in_rng_table [OF _ t(1)] cell_def cell_x_def)
  have Y: "oky inp p (E2_of (M_sp p) rx) (E2_of (M_sp p) ry) (ax_m (M_rx p) x)
             (ax_m (M_ry p) y) (wrap_ind (M_rz p) (M_rzd2 p) (ax_m (M_rz p) z + l3)) l2"
    if "l2 \<in> set (window p)" "l3 \<in> set (window p)" for l2 l3 rx ry
    unfolding oky_def
    using ax [OF that(1)] that X
    by (simp add: in_rng_E2_of in_rng_table [OF _ t(2)] window_def [symmetric])
  have Z: "okz inp p (E2_of (M_sp p) rx) (E2_of (M_sp p) ry) (E2_of (M_sp p) rz)
             (ax_m (M_rx p) x) (ax_m (M_ry p) y) (ax_m (M_rz p) z) l3"
    if "l3 \<in> set (window p)" for l3 rx ry rz
    unfolding okz_def
    using ax [OF that] that Y
    by (simp add: in_rng_E2_of in_rng_table [OF _ t(3)] window_def [symmetric])
  show ?thesis
    unfolding knot_ok_at_def using nz m Z by (simp add: window_def [symmetric])
qed

lemma knot_ok_at_nz:
  assumes "knot_ok_at inp p x y z"
  shows "M_rx p \<noteq> 0 \<and> taux p \<noteq> 0 \<and> M_ry p \<noteq> 0 \<and> tauy p \<noteq> 0 \<and> M_rz p \<noteq> 0 \<and> tauz p \<noteq> 0"
  using assms by (simp add: knot_ok_at_def)

lemma cell_int:
  assumes "M_rx p = of_int Nx" "M_ry p = of_int Ny" "M_rz p = of_int Nz"
    "even Nx" "even Ny" "even Nz"
  shows "cell p x y z l1 l2 l3 =
     wrapped Nx (ax_m (of_int Nx) x + l1) + Nx * wrapped Ny (ax_m (of_int Ny) y + l2)
       + Nx * Ny * wrapped Nz (ax_m (of_int Nz) z + l3)"
  unfolding cell_def lin_ind_int [OF assms(1,2)] M_rxd2_def M_ryd2_def M_rzd2_def assms(1-3)
  by (simp add: wrap_ind_even assms(4-6))

lemma E2_of_window:
  assumes "l \<in> set (window p)" "rho \<noteq> 0"
  shows "E2_of (M_sp p) rho ! nat (M_sp p + l - 1) = power_int rho l"
proof -
  have "1 - M_sp p \<le> l" "l \<le> M_sp p" using assms(1) by (simp_all add: window_def)
  then show ?thesis unfolding E2_of_def using assms(2) by (rule E2_pow_nth)
qed

lemma ax_rho_nz [simp]: "ax_rho M_r tau knot \<noteq> 0"
  by (simp add: ax_rho_def)

subsection \<open>The windowed sum\<close>

lemma sum_list_window:
  "(\<Sum>l\<leftarrow>window p. f l) = (\<Sum>l = 1 - M_sp p .. M_sp p. f l)"
  by (simp add: window_def sum_list_distinct_conv_sum_set)

lemma set_window: "set (window p) = {1 - M_sp p .. M_sp p}"
  by (simp add: window_def)

lemma ax_x_spec_d: "ax_x N knot = spec_d N knot"
  by (simp add: ax_x_def spec_d_def)

lemma spec_d_offset: "spec_d N knot = offset_d N knot (ax_m N knot)"
  by (simp add: spec_d_def offset_d_def)

lemma weight_spec:
  assumes "M_rx p = of_int Nx" "M_ry p = of_int Ny" "M_rz p = of_int Nz"
    "l1 \<in> set (window p)" "l2 \<in> set (window p)" "l3 \<in> set (window p)"
  shows "weight inp p x y z l1 l2 l3 =
     spec_weight p Nx Ny Nz (E_3x inp) (E_3y inp) (E_3z inp) x y z
       (ax_m (of_int Nx) x) (ax_m (of_int Ny) y) (ax_m (of_int Nz) z) l1 l2 l3"
proof -
  have E1: "ax_E1 N tau k = spec_E1 tau (spec_d N k)" for N tau k
    by (simp add: ax_E1_def spec_E1_def ax_x_spec_d power2_eq_square)
  have r: "ax_rho N tau k = E2_ratio N tau (spec_d N k)" for N tau k
    by (simp add: ax_rho_def E2_ratio_def ax_x_spec_d)
  have nz: "E2_ratio N tau d \<noteq> 0" for N tau d by (simp add: E2_ratio_def)
  note e = E2_of_window [OF assms(4) nz] E2_of_window [OF assms(5) nz]
    E2_of_window [OF assms(6) nz]
  show ?thesis
    unfolding weight_def spec_weight_def E1 r assms(1-3) e spec_d_offset
    by (simp add: mult_ac)
qed

lemma cell_spec:
  assumes "M_rx p = of_int Nx" "M_ry p = of_int Ny" "M_rz p = of_int Nz"
    "even Nx" "even Ny" "even Nz"
  shows "cell p x y z l1 l2 l3 =
     spec_cell Nx Ny Nz (ax_m (of_int Nx) x) (ax_m (of_int Ny) y) (ax_m (of_int Nz) z) l1 l2 l3"
  by (simp add: cell_int [OF assms] spec_cell_def)

lemma knot_val_at_spec:
  assumes "M_rx p = of_int Nx" "M_ry p = of_int Ny" "M_rz p = of_int Nz"
    "even Nx" "even Ny" "even Nz"
  shows "knot_val_at inp p g x y z =
     spec_sum ax_m p Nx Ny Nz (E_3x inp) (E_3y inp) (E_3z inp) g x y z"
proof -
  have "knot_val_at inp p g x y z =
     (\<Sum>l3 = 1 - M_sp p .. M_sp p. \<Sum>l2 = 1 - M_sp p .. M_sp p. \<Sum>l1 = 1 - M_sp p .. M_sp p.
        weight inp p x y z l1 l2 l3 * g ! nat (cell p x y z l1 l2 l3))"
    by (simp add: knot_val_at_flat sum_list_window)
  also have "\<dots> =
     (\<Sum>l3 = 1 - M_sp p .. M_sp p. \<Sum>l2 = 1 - M_sp p .. M_sp p. \<Sum>l1 = 1 - M_sp p .. M_sp p.
        spec_weight p Nx Ny Nz (E_3x inp) (E_3y inp) (E_3z inp) x y z
            (ax_m (of_int Nx) x) (ax_m (of_int Ny) y) (ax_m (of_int Nz) z) l1 l2 l3
          * g ! nat (spec_cell Nx Ny Nz
              (ax_m (of_int Nx) x) (ax_m (of_int Ny) y) (ax_m (of_int Nz) z) l1 l2 l3))"
    by (intro sum.cong refl)
       (simp add: weight_spec [OF assms(1-3)] cell_spec [OF assms] set_window)
  also have "\<dots> =
     (\<Sum>l1 = 1 - M_sp p .. M_sp p. \<Sum>l2 = 1 - M_sp p .. M_sp p. \<Sum>l3 = 1 - M_sp p .. M_sp p.
        spec_weight p Nx Ny Nz (E_3x inp) (E_3y inp) (E_3z inp) x y z
            (ax_m (of_int Nx) x) (ax_m (of_int Ny) y) (ax_m (of_int Nz) z) l1 l2 l3
          * g ! nat (spec_cell Nx Ny Nz
              (ax_m (of_int Nx) x) (ax_m (of_int Ny) y) (ax_m (of_int Nz) z) l1 l2 l3))"
  proof -
    have "(\<Sum>l3 = 1 - M_sp p .. M_sp p. \<Sum>l2 = 1 - M_sp p .. M_sp p. \<Sum>l1 = 1 - M_sp p .. M_sp p.
            F l1 l2 l3) =
          (\<Sum>l1 = 1 - M_sp p .. M_sp p. \<Sum>l2 = 1 - M_sp p .. M_sp p. \<Sum>l3 = 1 - M_sp p .. M_sp p.
            F l1 l2 l3)" for F :: "int \<Rightarrow> int \<Rightarrow> int \<Rightarrow> real"
    proof -
      have "(\<Sum>l3 = 1 - M_sp p .. M_sp p. \<Sum>l2 = 1 - M_sp p .. M_sp p.
               \<Sum>l1 = 1 - M_sp p .. M_sp p. F l1 l2 l3) =
            (\<Sum>l3 = 1 - M_sp p .. M_sp p. \<Sum>l1 = 1 - M_sp p .. M_sp p.
               \<Sum>l2 = 1 - M_sp p .. M_sp p. F l1 l2 l3)"
        by (rule sum.cong [OF refl]) (rule sum.swap)
      also have "\<dots> = (\<Sum>l1 = 1 - M_sp p .. M_sp p. \<Sum>l3 = 1 - M_sp p .. M_sp p.
               \<Sum>l2 = 1 - M_sp p .. M_sp p. F l1 l2 l3)"
        by (rule sum.swap)
      also have "\<dots> = (\<Sum>l1 = 1 - M_sp p .. M_sp p. \<Sum>l2 = 1 - M_sp p .. M_sp p.
               \<Sum>l3 = 1 - M_sp p .. M_sp p. F l1 l2 l3)"
        by (rule sum.cong [OF refl]) (rule sum.swap)
      finally show ?thesis .
    qed
    then show ?thesis .
  qed
  finally show ?thesis by (simp add: spec_sum_def)
qed

lemma mexFunction_Some:
  assumes "mexFunction uninit inp = Some (oR, oI)"
  shows "run_ok inp \<and> oR = run_out inp (ftaur inp) \<and> oI = run_out inp (ftaui inp)"
  using assms by (simp add: mexFunction_eq split: if_splits)

lemma run_out_nth:
  assumes "i < knots_M inp"
  shows "run_out inp g ! i =
     knot_val_at inp (the_params (Scales inp)) g (knots inp ! i)
       (knots inp ! (i + knots_M inp)) (knots inp ! (i + 2 * knots_M inp))"
proof -
  have "nat (int i + int (knots_M inp)) = i + knots_M inp"
    "nat (int i + 2 * int (knots_M inp)) = i + 2 * knots_M inp"
    by linarith+
  then show ?thesis
    using assms by (simp add: run_out_def knot_val_def kx_def ky_def kz_def)
qed

lemma length_run_out [simp]: "length (run_out inp g) = knots_M inp"
  by (simp add: run_out_def)

lemma read_Scales_Some:
  assumes "read_Scales sc = Some p"
  shows "7 \<le> length sc \<and> int_ok (c_int (sc ! 0)) \<and> p = the_params sc"
  using assms by (simp add: read_Scales_eq split: if_splits)

subsection \<open>Index bounds and well-formed inputs\<close>

lemma axis_index_bounds:
  fixes N n l m :: int
  assumes "even N" "0 < N" "1 \<le> n" "2 * n \<le> N" "0 \<le> m" "m < N"
    "1 - n \<le> l" "l \<le> n"
  shows "0 \<le> wrapped N (m + l) \<and> wrapped N (m + l) < N"
proof -
  have "- (N div 2) \<le> m + l \<and> m + l < N + N div 2"
    by (rule window_candidate [OF assms])
  then show ?thesis using wrapped_bounds [OF assms(1,2)] by simp
qed

lemma axis_index_inj:
  fixes N n l l' m :: int
  assumes "even N" "0 < N" "1 \<le> n" "2 * n \<le> N" "0 \<le> m" "m < N"
    "1 - n \<le> l" "l \<le> n" "1 - n \<le> l'" "l' \<le> n"
    "wrapped N (m + l) = wrapped N (m + l')"
  shows "l = l'"
proof -
  have a: "- (N div 2) \<le> m + l \<and> m + l < N + N div 2"
    by (rule window_candidate [OF assms(1-8)])
  have b: "- (N div 2) \<le> m + l' \<and> m + l' < N + N div 2"
    by (rule window_candidate [OF assms(1-6) assms(9,10)])
  have c: "\<bar>(m + l) - (m + l')\<bar> < N"
    using assms by linarith
  have "m + l = m + l'"
    using wrapped_inj [OF assms(1,2) _ _ _ _ c assms(11)] a b by simp
  then show ?thesis by simp
qed

lemma cell_bounds:
  assumes g: "grid_shape p Nx Ny Nz"
    and k: "lattice_ok Nx x" "lattice_ok Ny y" "lattice_ok Nz z"
    and l: "l1 \<in> set (window p)" "l2 \<in> set (window p)" "l3 \<in> set (window p)"
  shows "0 \<le> wrapped Nx (ax_m (of_int Nx) x + l1) \<and> wrapped Nx (ax_m (of_int Nx) x + l1) < Nx"
    and "0 \<le> wrapped Ny (ax_m (of_int Ny) y + l2) \<and> wrapped Ny (ax_m (of_int Ny) y + l2) < Ny"
    and "0 \<le> wrapped Nz (ax_m (of_int Nz) z + l3) \<and> wrapped Nz (ax_m (of_int Nz) z + l3) < Nz"
    and "0 \<le> cell p x y z l1 l2 l3 \<and> cell p x y z l1 l2 l3 < Nx * Ny * Nz"
proof -
  have gs: "1 \<le> M_sp p" "M_rx p = of_int Nx" "M_ry p = of_int Ny" "M_rz p = of_int Nz"
    "0 < Nx" "0 < Ny" "0 < Nz" "even Nx" "even Ny" "even Nz"
    "2 * M_sp p \<le> Nx" "2 * M_sp p \<le> Ny" "2 * M_sp p \<le> Nz"
    using g by (simp_all add: grid_shape_def)
  have w: "1 - M_sp p \<le> l1" "l1 \<le> M_sp p" "1 - M_sp p \<le> l2" "l2 \<le> M_sp p"
    "1 - M_sp p \<le> l3" "l3 \<le> M_sp p"
    using l by (simp_all add: window_def)
  have d: "0 \<le> ax_m (of_int Nx) x" "ax_m (of_int Nx) x < Nx" "0 \<le> ax_m (of_int Ny) y"
    "ax_m (of_int Ny) y < Ny" "0 \<le> ax_m (of_int Nz) z" "ax_m (of_int Nz) z < Nz"
    using k by (simp_all add: lattice_ok_def)
  show X: "0 \<le> wrapped Nx (ax_m (of_int Nx) x + l1) \<and> wrapped Nx (ax_m (of_int Nx) x + l1) < Nx"
    by (rule axis_index_bounds [OF gs(8,5,1,11) d(1,2) w(1,2)])
  show Y: "0 \<le> wrapped Ny (ax_m (of_int Ny) y + l2) \<and> wrapped Ny (ax_m (of_int Ny) y + l2) < Ny"
    by (rule axis_index_bounds [OF gs(9,6,1,12) d(3,4) w(3,4)])
  show Z: "0 \<le> wrapped Nz (ax_m (of_int Nz) z + l3) \<and> wrapped Nz (ax_m (of_int Nz) z + l3) < Nz"
    by (rule axis_index_bounds [OF gs(10,7,1,13) d(5,6) w(5,6)])
  show "0 \<le> cell p x y z l1 l2 l3 \<and> cell p x y z l1 l2 l3 < Nx * Ny * Nz"
    unfolding cell_int [OF gs(2,3,4,8,9,10)]
    using X Y Z by (intro lin_bounds) simp_all
qed

lemma cell_inj:
  assumes g: "grid_shape p Nx Ny Nz"
    and k: "lattice_ok Nx x" "lattice_ok Ny y" "lattice_ok Nz z"
    and l: "l1 \<in> set (window p)" "l2 \<in> set (window p)" "l3 \<in> set (window p)"
    and l': "l1' \<in> set (window p)" "l2' \<in> set (window p)" "l3' \<in> set (window p)"
    and e: "cell p x y z l1 l2 l3 = cell p x y z l1' l2' l3'"
  shows "l1 = l1' \<and> l2 = l2' \<and> l3 = l3'"
proof -
  have gs: "1 \<le> M_sp p" "M_rx p = of_int Nx" "M_ry p = of_int Ny" "M_rz p = of_int Nz"
    "0 < Nx" "0 < Ny" "0 < Nz" "even Nx" "even Ny" "even Nz"
    "2 * M_sp p \<le> Nx" "2 * M_sp p \<le> Ny" "2 * M_sp p \<le> Nz"
    using g by (simp_all add: grid_shape_def)
  have w: "1 - M_sp p \<le> l1" "l1 \<le> M_sp p" "1 - M_sp p \<le> l2" "l2 \<le> M_sp p"
    "1 - M_sp p \<le> l3" "l3 \<le> M_sp p"
    using l by (simp_all add: window_def)
  have w': "1 - M_sp p \<le> l1'" "l1' \<le> M_sp p" "1 - M_sp p \<le> l2'" "l2' \<le> M_sp p"
    "1 - M_sp p \<le> l3'" "l3' \<le> M_sp p"
    using l' by (simp_all add: window_def)
  have d: "0 \<le> ax_m (of_int Nx) x" "ax_m (of_int Nx) x < Nx" "0 \<le> ax_m (of_int Ny) y"
    "ax_m (of_int Ny) y < Ny" "0 \<le> ax_m (of_int Nz) z" "ax_m (of_int Nz) z < Nz"
    using k by (simp_all add: lattice_ok_def)
  note b = cell_bounds [OF g k l] and b' = cell_bounds [OF g k l']
  have "wrapped Nx (ax_m (of_int Nx) x + l1) = wrapped Nx (ax_m (of_int Nx) x + l1') \<and>
        wrapped Ny (ax_m (of_int Ny) y + l2) = wrapped Ny (ax_m (of_int Ny) y + l2') \<and>
        wrapped Nz (ax_m (of_int Nz) z + l3) = wrapped Nz (ax_m (of_int Nz) z + l3')"
    using e unfolding cell_int [OF gs(2,3,4,8,9,10)]
    using b(1,2) b'(1,2) by (intro lin_inj [where Nx = Nx and Ny = Ny]) simp_all
  then show ?thesis
    using axis_index_inj [OF gs(8,5,1,11) d(1,2) w(1,2) w'(1,2)]
      axis_index_inj [OF gs(9,6,1,12) d(3,4) w(3,4) w'(3,4)]
      axis_index_inj [OF gs(10,7,1,13) d(5,6) w(5,6) w'(5,6)]
    by simp
qed

lemma well_formed_shape:
  assumes "well_formed inp Nx Ny Nz"
  shows "grid_shape (the_params (Scales inp)) Nx Ny Nz"
  using assms by (simp add: well_formed_def grid_shape_def Let_def)

lemma well_formed_knots:
  assumes "well_formed inp Nx Ny Nz" "i < knots_M inp"
  shows "lattice_ok Nx (knots inp ! i)" "lattice_ok Ny (knots inp ! (i + knots_M inp))"
    "lattice_ok Nz (knots inp ! (i + 2 * knots_M inp))"
  using assms by (simp_all add: well_formed_def Let_def)

lemma int_okI: "- 2147483648 \<le> k \<Longrightarrow> k \<le> 2147483647 \<Longrightarrow> int_ok k"
  by (simp add: int_ok_def)

lemma extent_le_cells:
  fixes Nx Ny Nz :: int
  assumes "0 < Nx" "0 < Ny" "0 < Nz"
  shows "Nx \<le> Nx * Ny * Nz" "Ny \<le> Nx * Ny * Nz" "Nz \<le> Nx * Ny * Nz"
    "Nx * Ny \<le> Nx * Ny * Nz"
proof -
  have a: "1 \<le> Nx" "1 \<le> Ny" "1 \<le> Nz" using assms by simp_all
  have xy: "0 < Nx * Ny" using assms by simp
  show "Nx * Ny \<le> Nx * Ny * Nz" using mult_left_mono [OF a(3), of "Nx * Ny"] xy by simp
  have "Nx * 1 \<le> Nx * Ny" using a(2) assms(1) by (intro mult_left_mono) simp_all
  then show "Nx \<le> Nx * Ny * Nz" using \<open>Nx * Ny \<le> Nx * Ny * Nz\<close> by simp
  have "1 * Ny \<le> Nx * Ny" using a(1) assms(2) by (intro mult_right_mono) simp_all
  then show "Ny \<le> Nx * Ny * Nz" using \<open>Nx * Ny \<le> Nx * Ny * Nz\<close> by simp
  have "1 * Nz \<le> (Nx * Ny) * Nz" using xy assms(3) by (intro mult_right_mono) simp_all
  then show "Nz \<le> Nx * Ny * Nz" by simp
qed

lemma kxyz_nat:
  "kx inp (int i) = knots inp ! i" "ky inp (int i) = knots inp ! (i + knots_M inp)"
  "kz inp (int i) = knots inp ! (i + 2 * knots_M inp)"
proof -
  have "nat (int i + int (knots_M inp)) = i + knots_M inp"
    "nat (int i + 2 * int (knots_M inp)) = i + 2 * knots_M inp"
    by linarith+
  then show "kx inp (int i) = knots inp ! i" "ky inp (int i) = knots inp ! (i + knots_M inp)"
    "kz inp (int i) = knots inp ! (i + 2 * knots_M inp)"
    by (simp_all add: kx_def ky_def kz_def)
qed

lemma well_formed_run_ok:
  assumes wf: "well_formed inp Nx Ny Nz"
  shows "run_ok inp"
proof -
  define p where "p = the_params (Scales inp)"
  define C where "C = Nx * Ny * Nz"
  have g: "grid_shape p Nx Ny Nz" unfolding p_def by (rule well_formed_shape [OF wf])
  have f: "length (Scales inp) = 7" "1 \<le> M_sp p"
    "M_rx p = of_int Nx" "M_ry p = of_int Ny" "M_rz p = of_int Nz" "0 < Nx" "0 < Ny" "0 < Nz"
    "taux p \<noteq> 0" "tauy p \<noteq> 0" "tauz p \<noteq> 0"
    "length (E_3x inp) = nat (2 * M_sp p)" "length (E_3y inp) = nat (2 * M_sp p)"
    "length (E_3z inp) = nat (2 * M_sp p)"
    "length (knots inp) = 3 * knots_M inp"
    "length (ftaur inp) = nat C" "length (ftaui inp) = nat C"
    "C \<le> 2147483647" "3 * int (knots_M inp) \<le> 2147483647"
    "2 * M_sp p \<le> Nx" "2 * M_sp p \<le> Ny" "2 * M_sp p \<le> Nz"
    "even Nx" "even Ny" "even Nz"
    using wf by (simp_all add: well_formed_def Let_def p_def C_def)
  note le = extent_le_cells [OF f(6,7,8), folded C_def]
  have n2: "N2 p = Nx * Ny" by (simp add: N2_def f(3,4) flip: of_int_mult)
  have msp: "c_int (Scales inp ! 0) = M_sp p" by (simp add: p_def the_params_def)
  have two: "2 \<le> Nx" "2 \<le> Ny" "2 \<le> Nz" using f(2,20,21,22) by simp_all
  have le2: "2 * Nx \<le> C" "2 * Ny \<le> C" "2 * Nz \<le> C"
  proof -
    have a: "Nx * 2 \<le> Nx * Ny" using two(2) f(6) by (intro mult_left_mono) simp_all
    have b: "2 * Ny \<le> Nx * Ny" using two(1) f(7) by (intro mult_right_mono) simp_all
    have "2 \<le> Nx * Ny" using a two(1) by linarith
    then have c: "2 * Nz \<le> (Nx * Ny) * Nz"
      using f(8) by (intro mult_right_mono) simp_all
    show "2 * Nx \<le> C" "2 * Ny \<le> C" "2 * Nz \<le> C" using a b c le(4) by (simp_all add: C_def)
  qed
  have xy: "0 < Nx * Ny" using f(6,7) by simp
  have c0: "0 < C" using xy f(8) by (simp add: C_def)
  have io: "int_ok (Nx * Ny)" "int_ok C" "int_ok (2 * M_sp p)" "int_ok (M_sp p)"
    "int_ok (int (knots_M inp))" "int_ok (2 * int (knots_M inp))"
    using xy c0 le f(2,18,19,20) by (auto intro!: int_okI)
  have cv: "c_int (M_rx p * M_ry p) = Nx * Ny" "c_int (M_rx p * M_ry p * M_rz p) = C"
    by (simp_all add: f(3,4,5) C_def flip: of_int_mult)
  have conv: "conv_ok inp p"
    unfolding conv_ok_def cv using io by simp
  have "knot_ok inp p i" if "i \<in> set [0 .. int (knots_M inp) - 1]" for i
  proof -
    from that have i: "0 \<le> i" "i < int (knots_M inp)" by simp_all
    define j where "j = nat i"
    have ij: "i = int j" "j < knots_M inp" using i by (simp_all add: j_def)
    note dom = well_formed_knots [OF wf ij(2)]
    define x where "x = knots inp ! j"
    define y where "y = knots inp ! (j + knots_M inp)"
    define z where "z = knots inp ! (j + 2 * knots_M inp)"
    note dm = dom [folded x_def y_def z_def]
    have m: "0 \<le> ax_m (of_int Nx) x" "ax_m (of_int Nx) x < Nx" "0 \<le> ax_m (of_int Ny) y"
      "ax_m (of_int Ny) y < Ny" "0 \<le> ax_m (of_int Nz) z" "ax_m (of_int Nz) z < Nz"
      using dm by (simp_all add: lattice_ok_def)
    have "knot_ok_at inp p x y z"
    proof (rule knot_ok_atI)
      fix l1 l2 l3
      assume l: "l1 \<in> set (window p)" "l2 \<in> set (window p)" "l3 \<in> set (window p)"
      have "0 \<le> cell p x y z l1 l2 l3 \<and> cell p x y z l1 l2 l3 < C"
        unfolding C_def by (rule cell_bounds(4) [OF g dm l])
      then show "int_ok (cell p x y z l1 l2 l3) \<and> in_rng (ftaur inp) (cell p x y z l1 l2 l3) \<and>
            in_rng (ftaui inp) (cell p x y z l1 l2 l3)"
        using f(16,17,18) by (simp add: in_rng_def int_ok_def)
    next
      fix l assume l: "l \<in> set (window p)"
      then have w: "1 - M_sp p \<le> l" "l \<le> M_sp p" by (simp_all add: window_def)
      note b = cell_bounds(1,2,3) [OF g dm l l l]
      have wx: "wrap_ind (M_rx p) (M_rxd2 p) (ax_m (M_rx p) x + l) =
                  wrapped Nx (ax_m (of_int Nx) x + l)"
        by (simp add: M_rxd2_def f(3) wrap_ind_even f(23))
      have wy: "wrap_ind (M_ry p) (M_ryd2 p) (ax_m (M_ry p) y + l) =
                  wrapped Ny (ax_m (of_int Ny) y + l)"
        by (simp add: M_ryd2_def f(4) wrap_ind_even f(24))
      have wz: "wrap_ind (M_rz p) (M_rzd2 p) (ax_m (M_rz p) z + l) =
                  wrapped Nz (ax_m (of_int Nz) z + l)"
        by (simp add: M_rzd2_def f(5) wrap_ind_even f(25))
      have zc: "0 \<le> Nx * Ny * wrapped Nz (ax_m (of_int Nz) z + l)"
        "Nx * Ny * wrapped Nz (ax_m (of_int Nz) z + l) \<le> C"
      proof -
        have xy: "0 \<le> Nx * Ny" using f(6,7) by simp
        show "0 \<le> Nx * Ny * wrapped Nz (ax_m (of_int Nz) z + l)" using xy b(3) by simp
        have "Nx * Ny * wrapped Nz (ax_m (of_int Nz) z + l) \<le> Nx * Ny * Nz"
          using xy b(3) by (intro mult_left_mono) simp_all
        then show "Nx * Ny * wrapped Nz (ax_m (of_int Nz) z + l) \<le> C" by (simp add: C_def)
      qed
      have i1: "int_ok (ax_m (of_int Nx) x + l)" "int_ok (ax_m (of_int Ny) y + l)"
        "int_ok (ax_m (of_int Nz) z + l)"
        using m w le2 f(2,18,20,21,22) by (auto intro!: int_okI)
      have i2: "int_ok (wrapped Nx (ax_m (of_int Nx) x + l))"
        "int_ok (wrapped Ny (ax_m (of_int Ny) y + l))"
        "int_ok (wrapped Nz (ax_m (of_int Nz) z + l))"
        using b le f(18) by (auto intro!: int_okI)
      have i3: "int_ok (Nx * Ny * wrapped Nz (ax_m (of_int Nz) z + l))"
        using zc f(18) by (intro int_okI) linarith+
      show "int_ok (ax_m (M_rx p) x + l) \<and> int_ok (ax_m (M_ry p) y + l) \<and>
        int_ok (ax_m (M_rz p) z + l) \<and>
        int_ok (wrap_ind (M_rx p) (M_rxd2 p) (ax_m (M_rx p) x + l)) \<and>
        int_ok (wrap_ind (M_ry p) (M_ryd2 p) (ax_m (M_ry p) y + l)) \<and>
        int_ok (wrap_ind (M_rz p) (M_rzd2 p) (ax_m (M_rz p) z + l)) \<and>
        int_ok (N2 p * wrap_ind (M_rz p) (M_rzd2 p) (ax_m (M_rz p) z + l))"
        unfolding wx wy wz n2 unfolding f(3,4,5)
        using i1 i2 i3 by simp
    next
      show "int_ok (ax_m (M_rx p) x)" "int_ok (ax_m (M_ry p) y)" "int_ok (ax_m (M_rz p) z)"
        unfolding f(3,4,5) using m le f(18) by (auto intro!: int_okI)
    qed (use f in simp_all)
    moreover have "int_ok (i + int (knots_M inp))" "int_ok (i + 2 * int (knots_M inp))"
      using i f(19) by (auto intro!: int_okI)
    ultimately show ?thesis
      using f(15) ij by (simp add: knot_ok_def kxyz_nat in_rng_def x_def y_def z_def)
  qed
  then show ?thesis using f(1,2) conv msp io(4)
    by (simp add: run_ok_def p_def)
qed

lemma card_window_cube:
  "card ({1 - n .. n} \<times> {1 - n .. n} \<times> {1 - n .. n :: int}) = nat (2 * n) ^ 3"
  by (simp add: power3_eq_cube)

subsection \<open>Linearity in the grid\<close>

lemma knot_val_at_lin:
  assumes "\<And>l1 l2 l3. l1 \<in> set (window p) \<Longrightarrow> l2 \<in> set (window p) \<Longrightarrow> l3 \<in> set (window p) \<Longrightarrow>
      g ! nat (cell p x y z l1 l2 l3) =
        a * f ! nat (cell p x y z l1 l2 l3) + b * h ! nat (cell p x y z l1 l2 l3)"
  shows "knot_val_at inp p g x y z = a * knot_val_at inp p f x y z + b * knot_val_at inp p h x y z"
proof -
  have "knot_val_at inp p g x y z =
     (\<Sum>l3 = 1 - M_sp p .. M_sp p. \<Sum>l2 = 1 - M_sp p .. M_sp p. \<Sum>l1 = 1 - M_sp p .. M_sp p.
        weight inp p x y z l1 l2 l3 * g ! nat (cell p x y z l1 l2 l3))"
    by (simp add: knot_val_at_flat sum_list_window)
  also have "\<dots> =
     (\<Sum>l3 = 1 - M_sp p .. M_sp p. \<Sum>l2 = 1 - M_sp p .. M_sp p. \<Sum>l1 = 1 - M_sp p .. M_sp p.
        a * (weight inp p x y z l1 l2 l3 * f ! nat (cell p x y z l1 l2 l3)) +
        b * (weight inp p x y z l1 l2 l3 * h ! nat (cell p x y z l1 l2 l3)))"
    by (intro sum.cong refl) (simp add: assms set_window algebra_simps)
  also have "\<dots> = a * knot_val_at inp p f x y z + b * knot_val_at inp p h x y z"
    by (simp add: knot_val_at_flat sum_list_window sum.distrib sum_distrib_left)
  finally show ?thesis .
qed

lemma run_ok_cells:
  assumes "run_ok inp" "i < knots_M inp"
    "l1 \<in> set (window (the_params (Scales inp)))" "l2 \<in> set (window (the_params (Scales inp)))"
    "l3 \<in> set (window (the_params (Scales inp)))"
  shows "nat (cell (the_params (Scales inp)) (knots inp ! i) (knots inp ! (i + knots_M inp))
             (knots inp ! (i + 2 * knots_M inp)) l1 l2 l3) < length (ftaur inp) \<and>
         nat (cell (the_params (Scales inp)) (knots inp ! i) (knots inp ! (i + knots_M inp))
             (knots inp ! (i + 2 * knots_M inp)) l1 l2 l3) < length (ftaui inp)"
proof -
  have "int i \<in> set [0 .. int (knots_M inp) - 1]" using assms(2) by simp
  then have "knot_ok inp (the_params (Scales inp)) (int i)"
    using assms(1) unfolding run_ok_def by blast
  then have "knot_ok_at inp (the_params (Scales inp)) (knots inp ! i)
      (knots inp ! (i + knots_M inp)) (knots inp ! (i + 2 * knots_M inp))"
    by (simp add: knot_ok_def kxyz_nat)
  from knot_ok_at_cells [OF this assms(3-5)] show ?thesis
    unfolding in_rng_def by linarith
qed

lemma run_out_lin:
  assumes ok: "run_ok inp"
    and len: "length g = length (ftaur inp) \<or> length g = length (ftaui inp)"
      "length f = length g" "length h = length g"
    and pt: "\<And>k. k < length g \<Longrightarrow> g ! k = a * f ! k + b * h ! k"
  shows "run_out inp g = map2 (\<lambda>u v. a * u + b * v) (run_out inp f) (run_out inp h)"
proof (rule nth_equalityI)
  show "length (run_out inp g) =
        length (map2 (\<lambda>u v. a * u + b * v) (run_out inp f) (run_out inp h))"
    by simp
next
  fix i assume "i < length (run_out inp g)"
  then have i: "i < knots_M inp" by simp
  have "knot_val_at inp (the_params (Scales inp)) g (knots inp ! i)
           (knots inp ! (i + knots_M inp)) (knots inp ! (i + 2 * knots_M inp)) =
        a * knot_val_at inp (the_params (Scales inp)) f (knots inp ! i)
           (knots inp ! (i + knots_M inp)) (knots inp ! (i + 2 * knots_M inp)) +
        b * knot_val_at inp (the_params (Scales inp)) h (knots inp ! i)
           (knots inp ! (i + knots_M inp)) (knots inp ! (i + 2 * knots_M inp))"
  proof (rule knot_val_at_lin)
    fix l1 l2 l3
    assume l: "l1 \<in> set (window (the_params (Scales inp)))"
      "l2 \<in> set (window (the_params (Scales inp)))"
      "l3 \<in> set (window (the_params (Scales inp)))"
    have "nat (cell (the_params (Scales inp)) (knots inp ! i) (knots inp ! (i + knots_M inp))
             (knots inp ! (i + 2 * knots_M inp)) l1 l2 l3) < length g"
      using run_ok_cells [OF ok i l] len(1) by auto
    then show "g ! nat (cell (the_params (Scales inp)) (knots inp ! i)
             (knots inp ! (i + knots_M inp)) (knots inp ! (i + 2 * knots_M inp)) l1 l2 l3) =
        a * f ! nat (cell (the_params (Scales inp)) (knots inp ! i)
             (knots inp ! (i + knots_M inp)) (knots inp ! (i + 2 * knots_M inp)) l1 l2 l3) +
        b * h ! nat (cell (the_params (Scales inp)) (knots inp ! i)
             (knots inp ! (i + knots_M inp)) (knots inp ! (i + 2 * knots_M inp)) l1 l2 l3)"
      by (rule pt)
  qed
  then show "run_out inp g ! i =
        map2 (\<lambda>u v. a * u + b * v) (run_out inp f) (run_out inp h) ! i"
    using i by (simp add: run_out_nth)
qed

lemma knot_ok_at_grid:
  assumes "length a = length (ftaur inp)" "length b = length (ftaui inp)"
  shows "knot_ok_at (inp\<lparr>ftaur := a, ftaui := b\<rparr>) p x y z = knot_ok_at inp p x y z"
  using assms by (simp add: knot_ok_at_def okz_def oky_def okx_def in_rng_def)

lemma run_ok_grid:
  assumes "length a = length (ftaur inp)" "length b = length (ftaui inp)"
  shows "run_ok (inp\<lparr>ftaur := a, ftaui := b\<rparr>) = run_ok inp"
  using assms
  by (simp add: run_ok_def knot_ok_def knot_ok_at_grid in_rng_def kx_def ky_def kz_def
      conv_ok_def)

lemma knot_val_at_grid:
  "knot_val_at (inp\<lparr>ftaur := a, ftaui := b\<rparr>) p g x y z = knot_val_at inp p g x y z"
  by (simp add: knot_val_at_def sz_def sy_def tx_def)

lemma run_out_grid:
  "run_out (inp\<lparr>ftaur := a, ftaui := b\<rparr>) g = run_out inp g"
  by (simp add: run_out_def knot_val_def knot_val_at_grid kx_def ky_def kz_def)

lemma mexFunction_grid:
  assumes "length a = length (ftaur inp)" "length b = length (ftaui inp)"
  shows "mexFunction uninit (inp\<lparr>ftaur := a, ftaui := b\<rparr>) =
           (if run_ok inp then Some (run_out inp a, run_out inp b) else None)"
  by (simp add: mexFunction_eq run_ok_grid [OF assms] run_out_grid)

subsection \<open>Impulse grids and the Gaussian envelope\<close>

lemma length_impulse [simp]: "length (impulse n c0 v) = n"
  by (simp add: impulse_def)

lemma impulse_nth: "k < n \<Longrightarrow> impulse n c0 v ! k = (if k = c0 then v else 0)"
  by (simp add: impulse_def nth_list_update)

lemma impulse_cell:
  assumes g: "grid_shape p Nx Ny Nz" and k: "lattice_ok Nx x" "lattice_ok Ny y" "lattice_ok Nz z"
    and l: "a \<in> set (window p)" "b \<in> set (window p)" "c \<in> set (window p)"
  shows "impulse (nat (Nx * Ny * Nz)) c0 v ! nat (cell p x y z a b c) =
           (if cell p x y z a b c = int c0 then v else 0)"
proof -
  have b: "0 \<le> cell p x y z a b c" "cell p x y z a b c < Nx * Ny * Nz"
    using cell_bounds(4) [OF g k l] by simp_all
  then have "nat (cell p x y z a b c) < nat (Nx * Ny * Nz)" by linarith
  moreover have "(nat (cell p x y z a b c) = c0) = (cell p x y z a b c = int c0)"
    using b(1) by linarith
  ultimately show ?thesis by (simp add: impulse_nth)
qed

lemma knot_val_at_hit:
  assumes g: "grid_shape p Nx Ny Nz" and k: "lattice_ok Nx x" "lattice_ok Ny y" "lattice_ok Nz z"
    and l: "l1 \<in> set (window p)" "l2 \<in> set (window p)" "l3 \<in> set (window p)"
    and hit: "cell p x y z l1 l2 l3 = int c0"
  shows "knot_val_at inp p (impulse (nat (Nx * Ny * Nz)) c0 v) x y z =
           weight inp p x y z l1 l2 l3 * v"
proof -
  have T: "weight inp p x y z a b c *
             impulse (nat (Nx * Ny * Nz)) c0 v ! nat (cell p x y z a b c) =
           (if a = l1 then (if b = l2 then (if c = l3
              then weight inp p x y z l1 l2 l3 * v else 0) else 0) else 0)"
    if m: "a \<in> set (window p)" "b \<in> set (window p)" "c \<in> set (window p)" for a b c
  proof (cases "cell p x y z a b c = int c0")
    case True
    then have "cell p x y z a b c = cell p x y z l1 l2 l3" using hit by simp
    then have e: "a = l1 \<and> b = l2 \<and> c = l3" by (rule cell_inj [OF g k m l])
    have "impulse (nat (Nx * Ny * Nz)) c0 v ! nat (cell p x y z a b c) = v"
      using impulse_cell [OF g k m, of c0 v] True by simp
    then show ?thesis using e by simp
  next
    case False
    then have "\<not> (a = l1 \<and> b = l2 \<and> c = l3)" using hit by auto
    then show ?thesis using False by (auto simp add: impulse_cell [OF g k m])
  qed
  have L: "l1 \<in> {1 - M_sp p .. M_sp p}" "l2 \<in> {1 - M_sp p .. M_sp p}"
    "l3 \<in> {1 - M_sp p .. M_sp p}"
    using l by (simp_all add: set_window)
  have "knot_val_at inp p (impulse (nat (Nx * Ny * Nz)) c0 v) x y z =
     (\<Sum>c = 1 - M_sp p .. M_sp p. \<Sum>b = 1 - M_sp p .. M_sp p. \<Sum>a = 1 - M_sp p .. M_sp p.
        weight inp p x y z a b c *
          impulse (nat (Nx * Ny * Nz)) c0 v ! nat (cell p x y z a b c))"
    by (simp add: knot_val_at_flat sum_list_window)
  also have "\<dots> =
     (\<Sum>c = 1 - M_sp p .. M_sp p. \<Sum>b = 1 - M_sp p .. M_sp p. \<Sum>a = 1 - M_sp p .. M_sp p.
        (if a = l1 then (if b = l2 then (if c = l3
              then weight inp p x y z l1 l2 l3 * v else 0) else 0) else 0))"
    by (intro sum.cong refl) (simp add: T set_window)
  also have "\<dots> = weight inp p x y z l1 l2 l3 * v"
    using L by (simp add: sum.delta)
  finally show ?thesis .
qed

lemma knot_val_at_miss:
  assumes g: "grid_shape p Nx Ny Nz" and k: "lattice_ok Nx x" "lattice_ok Ny y" "lattice_ok Nz z"
    and miss: "\<And>a b c. a \<in> set (window p) \<Longrightarrow> b \<in> set (window p) \<Longrightarrow> c \<in> set (window p) \<Longrightarrow>
      cell p x y z a b c \<noteq> int c0"
  shows "knot_val_at inp p (impulse (nat (Nx * Ny * Nz)) c0 v) x y z = 0"
proof -
  have "knot_val_at inp p (impulse (nat (Nx * Ny * Nz)) c0 v) x y z =
     (\<Sum>c = 1 - M_sp p .. M_sp p. \<Sum>b = 1 - M_sp p .. M_sp p. \<Sum>a = 1 - M_sp p .. M_sp p.
        weight inp p x y z a b c *
          impulse (nat (Nx * Ny * Nz)) c0 v ! nat (cell p x y z a b c))"
    by (simp add: knot_val_at_flat sum_list_window)
  also have "\<dots> =
     (\<Sum>c = 1 - M_sp p .. M_sp p. \<Sum>b = 1 - M_sp p .. M_sp p. \<Sum>a = 1 - M_sp p .. M_sp p. 0)"
    by (intro sum.cong refl) (simp add: impulse_cell [OF g k] miss set_window)
  finally show ?thesis by simp
qed

lemma axis_gauss:
  assumes "N \<noteq> 0" "tau \<noteq> 0"
  shows "spec_E1 tau d * (power_int (E2_ratio N tau d) l
           * exp (- (of_int l * (2 * PI / N))\<^sup>2 / (4 * tau))) =
         exp (- (d - of_int l * (2 * PI / N))\<^sup>2 / (4 * tau))"
proof -
  have "spec_E1 tau d * (power_int (E2_ratio N tau d) l
           * exp (- (of_int l * (2 * PI / N))\<^sup>2 / (4 * tau))) =
        exp (- d\<^sup>2 / (4 * tau) + (of_int l * (d * PI / (N * tau))
           + - (of_int l * (2 * PI / N))\<^sup>2 / (4 * tau)))"
    by (simp only: spec_E1_def E2_ratio_def exp_power_int exp_add)
  also have "- d\<^sup>2 / (4 * tau) + (of_int l * (d * PI / (N * tau))
           + - (of_int l * (2 * PI / N))\<^sup>2 / (4 * tau)) =
        - (d - of_int l * (2 * PI / N))\<^sup>2 / (4 * tau)"
    using assms by (simp add: field_simps power2_eq_square)
  finally show ?thesis .
qed

lemma gauss_env_mono:
  assumes "0 < taux p" "0 < tauy p" "0 < tauz p"
    "\<bar>Dx\<bar> \<le> \<bar>Dx'\<bar>" "\<bar>Dy\<bar> \<le> \<bar>Dy'\<bar>" "\<bar>Dz\<bar> \<le> \<bar>Dz'\<bar>"
  shows "gauss_env p Dx' Dy' Dz' \<le> gauss_env p Dx Dy Dz"
proof -
  have m: "exp (- b\<^sup>2 / (4 * t)) \<le> exp (- a\<^sup>2 / (4 * t))"
    if "0 < t" "\<bar>a\<bar> \<le> \<bar>b\<bar>" for a b t :: real
  proof -
    have "a\<^sup>2 \<le> b\<^sup>2" using that(2) by (simp add: abs_le_square_iff)
    then have "- b\<^sup>2 / (4 * t) \<le> - a\<^sup>2 / (4 * t)"
      using that(1) by (simp add: divide_le_cancel)
    then show ?thesis by simp
  qed
  show ?thesis
    unfolding gauss_env_def
    by (intro mult_mono m assms) simp_all
qed

lemma gauss_env_pos: "0 < gauss_env p Dx Dy Dz"
  by (simp add: gauss_env_def)

lemma weight_gauss:
  assumes g: "grid_shape p Nx Ny Nz"
    and tau: "taux p \<noteq> 0" "tauy p \<noteq> 0" "tauz p \<noteq> 0"
    and l: "l1 \<in> set (window p)" "l2 \<in> set (window p)" "l3 \<in> set (window p)"
  shows "weight inp p x y z l1 l2 l3 =
           gauss_env p (knot_offset Nx x l1) (knot_offset Ny y l2) (knot_offset Nz z l3)
           * (table_dev (M_sp p) Nx (taux p) (E_3x inp) l1
              * table_dev (M_sp p) Ny (tauy p) (E_3y inp) l2
              * table_dev (M_sp p) Nz (tauz p) (E_3z inp) l3)"
proof -
  have sh: "M_rx p = of_int Nx" "M_ry p = of_int Ny" "M_rz p = of_int Nz"
    and nz: "real_of_int Nx \<noteq> 0" "real_of_int Ny \<noteq> 0" "real_of_int Nz \<noteq> 0"
    using g by (simp_all add: grid_shape_def)
  have t: "tab ! nat (n + k - 1) = gauss_factor N tau k * table_dev n N tau tab k"
    for tab n k N tau
    by (simp add: table_dev_def gauss_factor_def)
  have a: "spec_E1 tau d * (power_int (E2_ratio (of_int N) tau d) k * tab ! nat (n + k - 1)) =
           exp (- (d - of_int k * (2 * PI / of_int N))\<^sup>2 / (4 * tau)) * table_dev n N tau tab k"
    if "real_of_int N \<noteq> 0" "tau \<noteq> 0" for tau d N k tab n
  proof -
    have "spec_E1 tau d * (power_int (E2_ratio (of_int N) tau d) k * tab ! nat (n + k - 1)) =
          (spec_E1 tau d * (power_int (E2_ratio (of_int N) tau d) k
             * exp (- (of_int k * (2 * PI / of_int N))\<^sup>2 / (4 * tau)))) * table_dev n N tau tab k"
      by (subst t [of tab n k N tau]) (simp add: gauss_factor_def)
    then show ?thesis by (simp only: axis_gauss [OF that])
  qed
  have "weight inp p x y z l1 l2 l3 =
      (spec_E1 (taux p) (spec_d (of_int Nx) x) *
         (power_int (E2_ratio (of_int Nx) (taux p) (spec_d (of_int Nx) x)) l1
           * E_3x inp ! nat (M_sp p + l1 - 1))) *
      (spec_E1 (tauy p) (spec_d (of_int Ny) y) *
         (power_int (E2_ratio (of_int Ny) (tauy p) (spec_d (of_int Ny) y)) l2
           * E_3y inp ! nat (M_sp p + l2 - 1))) *
      (spec_E1 (tauz p) (spec_d (of_int Nz) z) *
         (power_int (E2_ratio (of_int Nz) (tauz p) (spec_d (of_int Nz) z)) l3
           * E_3z inp ! nat (M_sp p + l3 - 1)))"
    unfolding weight_spec [OF sh l] spec_weight_def spec_d_offset by (simp add: mult_ac)
  also have "\<dots> =
      gauss_env p (knot_offset Nx x l1) (knot_offset Ny y l2) (knot_offset Nz z l3)
       * (table_dev (M_sp p) Nx (taux p) (E_3x inp) l1
          * table_dev (M_sp p) Ny (tauy p) (E_3y inp) l2
          * table_dev (M_sp p) Nz (tauz p) (E_3z inp) l3)"
    unfolding a [OF nz(1) tau(1)] a [OF nz(2) tau(2)] a [OF nz(3) tau(3)]
      gauss_env_def knot_offset_def by (simp add: mult_ac)
  finally show ?thesis .
qed

subsection \<open>Rounding to binary64\<close>

lemma floor_log2_eq:
  assumes "2 powi e \<le> v" "v < 2 powi (e + 1)"
  shows "\<lfloor>log 2 v\<rfloor> = e"
proof -
  have p: "0 < v" using assms(1) by (rule less_le_trans [rotated]) simp
  have a: "(2::real) powr real_of_int k = 2 powi k" for k
    by (simp add: powr_real_of_int')
  have "real_of_int e \<le> log 2 v"
    using assms(1) p by (simp add: le_log_iff a)
  moreover have "log 2 v < real_of_int (e + 1)"
    using assms(2) unfolding log_less_iff [OF _ p, of 2, simplified] a .
  ultimately show ?thesis by linarith
qed

lemma dbl_eval:
  assumes "2 powi e \<le> \<bar>v\<bar>" "\<bar>v\<bar> < 2 powi (e + 1)" "- 1022 \<le> e"
  shows "dbl v = of_int (rne (v / 2 powi (e - 52))) * 2 powi (e - 52)"
proof -
  have "0 < \<bar>v\<bar>" using assms(1) by (rule less_le_trans [rotated]) simp
  then have nz: "v \<noteq> 0" by simp
  have "\<lfloor>log 2 \<bar>v\<bar>\<rfloor> = e" using assms(1,2) by (rule floor_log2_eq)
  then show ?thesis using nz assms(3) by (simp add: dbl_def Let_def max_def)
qed

lemma dbl_zero [simp]: "dbl 0 = 0"
  by (simp add: dbl_def)

lemma rne_of_int [simp]: "rne (of_int k) = k"
  by (simp add: rne_def)

lemma ax_m_zero [simp]: "ax_m N 0 = 0"
  by (simp add: ax_m_def)

lemma dbl_22_PI: "dbl (22 * PI) = 4863538454519552 / 70368744177664"
  by (subst dbl_eval [where e = 6]) (simp_all add: PI_def rne_def)

lemma ax_m_22_PI: "ax_m 22 PI = 10"
  unfolding ax_m_def dbl_22_PI
  by (subst dbl_eval [where e = 3]) (simp_all add: PI_def rne_def)

lemma dbl_2: "dbl 2 = 2"
  by (subst dbl_eval [where e = 1]) (simp_all add: rne_def)

lemma ax_m_2_1: "ax_m 2 1 = 0"
proof -
  have a: "dbl (2 * 1) = 2" by (simp add: dbl_2)
  show ?thesis
    unfolding ax_m_def a
    by (subst dbl_eval [where e = "- 2"]) (simp_all add: PI_def rne_def)
qed

lemma dbl_4: "dbl 4 = 4"
  by (subst dbl_eval [where e = 2]) (simp_all add: rne_def)

lemma dbl_2_PI: "dbl (2 * PI) = 2 * PI"
  by (subst dbl_eval [where e = 2]) (simp_all add: PI_def rne_def)

lemma dbl_4_PI: "dbl (4 * PI) = 4 * PI"
  by (subst dbl_eval [where e = 3]) (simp_all add: PI_def rne_def)

lemma ax_m_2_PI: "ax_m 2 PI = 1"
  by (simp add: ax_m_def dbl_2_PI) (subst dbl_eval [where e = 0], simp_all add: rne_def)

lemma ax_m_4_1: "ax_m 4 1 = 0"
proof -
  have a: "dbl (4 * 1) = 4" by (simp add: dbl_4)
  show ?thesis
    unfolding ax_m_def a
    by (subst dbl_eval [where e = "- 1"]) (simp_all add: PI_def rne_def)
qed

lemma ax_m_4_PI: "ax_m 4 PI = 2"
  by (simp add: ax_m_def dbl_4_PI dbl_2)

subsection \<open>A worked example\<close>

lemma upto_small: "[0..1] = [0, 1]" "[0..0] = [0]" "[1..1] = [1]" "[0..-1] = []"
  by (simp_all add: upto.simps)

lemma params_I1: "the_params (Scales I1) = P1"
  by (simp add: the_params_def I1_def P1_def c_int_def)

lemma read_Scales_I1: "read_Scales (Scales I1) = Some P1"
  by (simp add: read_Scales_eq params_I1) (simp add: I1_def int_ok_def c_int_def)

lemma PI_pos: "0 < PI"
  by (simp add: PI_def)

lemma well_formed_I1: "well_formed I1 2 2 2"
  unfolding well_formed_def params_I1 Let_def
  by (simp add: I1_def P1_def lattice_ok_def)

lemma axis_origin: "ax_m N 0 = 0" "ax_E1 N tau 0 = 1" "ax_rho N tau 0 = 1"
  by (simp_all add: ax_E1_def ax_rho_def ax_x_def)

lemma E2_of_1_1: "E2_of 1 1 = [1, 1]"
  by (simp add: E2_of_def E2_pow_def upt_rec)

lemma wrapped_2: "wrapped 2 0 = 1" "wrapped 2 1 = 0"
  by (simp_all add: wrapped_def)

lemma cell_P1: "cell P1 0 0 0 l1 l2 l3 = wrapped 2 l1 + 2 * wrapped 2 l2 + 4 * wrapped 2 l3"
  by (subst cell_int [where Nx = 2 and Ny = 2 and Nz = 2])
     (simp_all add: P1_def axis_origin)

lemma weight_I1:
  "weight I1 P1 0 0 0 l1 l2 l3 =
     [1, 1] ! nat l3 * [1, 1] ! nat l3 * ([1, 1] ! nat l2 * [1, 1] ! nat l2)
       * ([1, 1] ! nat l1 * [2, 3] ! nat l1)"
  by (simp add: weight_def P1_def I1_def axis_origin E2_of_1_1)

lemma I1_sel:
  "ftaur I1 = [1, 1, 1, 1, 1, 1, 1, 1]" "ftaui I1 = [0, 0, 0, 0, 0, 0, 0, 1]"
  "knots_M I1 = 1" "knots I1 = [0, 0, 0]"
  by (simp_all add: I1_def)

lemma knot_val_I1:
  "knot_val_at I1 P1 (ftaur I1) 0 0 0 = 20"
  "knot_val_at I1 P1 (ftaui I1) 0 0 0 = 2"
  by (simp_all add: knot_val_at_flat window_def P1_def upto_small I1_sel
        weight_I1 [unfolded P1_def] cell_P1 [unfolded P1_def] wrapped_2)

lemma run_out_I1: "run_out I1 (ftaur I1) = [20]" "run_out I1 (ftaui I1) = [2]"
  unfolding run_out_def params_I1
  by (simp_all add: knot_val_def kx_def ky_def kz_def I1_sel(3,4) knot_val_I1)

lemma mexFunction_I1: "mexFunction uninit I1 = Some ([20], [2])"
  using well_formed_run_ok [OF well_formed_I1] by (simp add: mexFunction_eq run_out_I1)

subsection \<open>Impulse grids and example runs\<close>

lemma singleton_list:
  assumes "length xs = 1" "xs ! 0 = v"
  shows "xs = [v]"
  using assms by (cases xs) simp_all

lemma mexFunction_wf:
  assumes "well_formed inp Nx Ny Nz"
  shows "mexFunction uninit inp = Some (run_out inp (ftaur inp), run_out inp (ftaui inp))"
  using well_formed_run_ok [OF assms] by (simp add: mexFunction_eq)

lemma all_less_two: "(\<forall>i<2::nat. P i) \<longleftrightarrow> P 0 \<and> P (Suc 0)"
  by (auto simp add: less_2_cases_iff)

lemma int_set_01: "{0 .. 1 :: int} = {0, 1}"
  by auto

lemma window_cell_eq:
  assumes "grid_shape p Nx Ny Nz"
  shows "cell p (ks ! i) (ks ! (i + M)) (ks ! (i + 2 * M)) l1 l2 l3 =
           window_cell Nx Ny Nz ks M i l1 l2 l3"
proof -
  have sh: "M_rx p = of_int Nx" "M_ry p = of_int Ny" "M_rz p = of_int Nz"
    "even Nx" "even Ny" "even Nz"
    using assms by (simp_all add: grid_shape_def)
  show ?thesis by (simp add: cell_spec [OF sh] window_cell_def)
qed

lemma impulse_run_hit:
  assumes wf: "well_formed inp Nx Ny Nz" and i: "i < knots_M inp"
    and l: "l1 \<in> {1 - M_sp (the_params (Scales inp)) .. M_sp (the_params (Scales inp))}"
      "l2 \<in> {1 - M_sp (the_params (Scales inp)) .. M_sp (the_params (Scales inp))}"
      "l3 \<in> {1 - M_sp (the_params (Scales inp)) .. M_sp (the_params (Scales inp))}"
    and hit: "window_cell Nx Ny Nz (knots inp) (knots_M inp) i l1 l2 l3 = int c0"
  shows "run_out inp (impulse (nat (Nx * Ny * Nz)) c0 v) ! i =
           weight inp (the_params (Scales inp)) (knots inp ! i) (knots inp ! (i + knots_M inp))
             (knots inp ! (i + 2 * knots_M inp)) l1 l2 l3 * v"
proof -
  define p where "p = the_params (Scales inp)"
  have g: "grid_shape p Nx Ny Nz" unfolding p_def by (rule well_formed_shape [OF wf])
  note dom = well_formed_knots [OF wf i]
  have w: "l1 \<in> set (window p)" "l2 \<in> set (window p)" "l3 \<in> set (window p)"
    using l by (simp_all add: set_window p_def)
  have h: "cell p (knots inp ! i) (knots inp ! (i + knots_M inp))
             (knots inp ! (i + 2 * knots_M inp)) l1 l2 l3 = int c0"
    using hit by (simp add: window_cell_eq [OF g])
  show ?thesis
    unfolding run_out_nth [OF i] p_def [symmetric]
    by (rule knot_val_at_hit [OF g dom w h])
qed

lemma impulse_run_miss:
  assumes wf: "well_formed inp Nx Ny Nz" and i: "i < knots_M inp"
    and miss: "\<forall>a\<in>{1 - M_sp (the_params (Scales inp)) .. M_sp (the_params (Scales inp))}.
               \<forall>b\<in>{1 - M_sp (the_params (Scales inp)) .. M_sp (the_params (Scales inp))}.
               \<forall>c\<in>{1 - M_sp (the_params (Scales inp)) .. M_sp (the_params (Scales inp))}.
                 window_cell Nx Ny Nz (knots inp) (knots_M inp) i a b c \<noteq> int c0"
  shows "run_out inp (impulse (nat (Nx * Ny * Nz)) c0 v) ! i = 0"
proof -
  define p where "p = the_params (Scales inp)"
  have g: "grid_shape p Nx Ny Nz" unfolding p_def by (rule well_formed_shape [OF wf])
  note dom = well_formed_knots [OF wf i]
  have m: "cell p (knots inp ! i) (knots inp ! (i + knots_M inp))
             (knots inp ! (i + 2 * knots_M inp)) a b c \<noteq> int c0"
    if "a \<in> set (window p)" "b \<in> set (window p)" "c \<in> set (window p)" for a b c
    using miss [folded p_def] that
    by (simp add: window_cell_eq [OF g] set_window)
  show ?thesis
    unfolding run_out_nth [OF i] p_def [symmetric]
    by (rule knot_val_at_miss [OF g dom m])
qed

lemma E2_of_1: "E2_of 1 r = [1, r]"
  by (simp add: E2_of_def E2_pow_def upt_rec)

lemma params_J22: "the_params (Scales (J22 c0)) = P22"
  by (simp add: the_params_def J22_def P22_def c_int_def)

lemma read_Scales_J22: "read_Scales (Scales (J22 c0)) = Some P22"
  by (simp add: read_Scales_eq params_J22) (simp add: J22_def int_ok_def c_int_def)

lemma J22_sel:
  "ftaur (J22 c0) = impulse 10648 c0 1" "ftaui (J22 c0) = impulse 10648 c0 0"
  "knots_M (J22 c0) = 1" "knots (J22 c0) = [PI, 0, 0]"
  "E_3x (J22 c0) = [2, 3]" "E_3y (J22 c0) = [1, 1]" "E_3z (J22 c0) = [1, 1]"
  by (simp_all add: J22_def)

lemma spec_m_22: "spec_m 22 PI = 11" "spec_m 22 0 = 0"
  by (simp_all add: spec_m_def)

lemma well_formed_J22: "well_formed (J22 c0) 22 22 22"
  unfolding well_formed_def params_J22 Let_def
  by (simp add: J22_def P22_def lattice_ok_def ax_m_22_PI)

lemma wrapped_22:
  "wrapped 22 0 = 11" "wrapped 22 1 = 12" "wrapped 22 10 = 21" "wrapped 22 11 = 0"
  "wrapped 22 12 = 1"
  by (simp_all add: wrapped_def)

lemma window_cell_J22:
  "window_cell 22 22 22 [PI, 0, 0] (Suc 0) 0 l1 l2 l3 =
     wrapped 22 (10 + l1) + 22 * wrapped 22 l2 + 484 * wrapped 22 l3"
  by (simp add: window_cell_def spec_cell_def ax_m_22_PI)

lemma ax_x_22_PI: "ax_x 22 PI = PI / 11"
  by (simp add: ax_x_def ax_m_22_PI)

lemma axis_22_PI:
  "ax_E1 22 1 PI = exp (- (PI * PI / 484))" "ax_rho 22 1 PI = exp (PI * PI / 242)"
  by (simp_all add: ax_E1_def ax_rho_def ax_x_22_PI)

lemma weight_J22:
  "weight (J22 c0) P22 PI 0 0 l1 l2 l3 =
     exp (- (PI * PI / 484))
       * ([1, 1] ! nat l3 * [1, 1] ! nat l3) * ([1, 1] ! nat l2 * [1, 1] ! nat l2)
       * ([1, exp (PI * PI / 242)] ! nat l1 * [2, 3] ! nat l1)"
  by (simp add: weight_def P22_def J22_sel axis_origin E2_of_1 axis_22_PI)

lemma run_J22:
  "mexFunction uninit (J22 c0) =
     Some ([run_out (J22 c0) (impulse 10648 c0 1) ! 0], [run_out (J22 c0) (impulse 10648 c0 0) ! 0])"
proof -
  have l: "length (run_out (J22 c0) g) = 1" for g by (simp add: J22_sel)
  have "run_out (J22 c0) g = [run_out (J22 c0) g ! 0]" for g
    by (rule singleton_list [OF l refl])
  then show ?thesis
    using mexFunction_wf [OF well_formed_J22, of uninit c0] by (simp add: J22_sel)
qed

lemma run_J22_below:
  "run_out (J22 5587) (impulse 10648 5587 v) ! 0 = exp (- (PI * PI / 484)) * 2 * v"
proof -
  have "run_out (J22 5587) (impulse (nat (22 * 22 * 22)) 5587 v) ! 0 =
          weight (J22 5587) (the_params (Scales (J22 5587))) (knots (J22 5587) ! 0)
            (knots (J22 5587) ! (0 + knots_M (J22 5587)))
            (knots (J22 5587) ! (0 + 2 * knots_M (J22 5587))) 0 0 0 * v"
    by (rule impulse_run_hit [OF well_formed_J22])
       (simp_all add: params_J22 P22_def J22_sel window_cell_J22 wrapped_22)
  then show ?thesis by (simp add: params_J22 J22_sel weight_J22)
qed

lemma run_J22_at:
  "run_out (J22 5566) (impulse 10648 5566 v) ! 0 =
     exp (- (PI * PI / 484)) * (exp (PI * PI / 242) * 3) * v"
proof -
  have "run_out (J22 5566) (impulse (nat (22 * 22 * 22)) 5566 v) ! 0 =
          weight (J22 5566) (the_params (Scales (J22 5566))) (knots (J22 5566) ! 0)
            (knots (J22 5566) ! (0 + knots_M (J22 5566)))
            (knots (J22 5566) ! (0 + 2 * knots_M (J22 5566))) 1 0 0 * v"
    by (rule impulse_run_hit [OF well_formed_J22])
       (simp_all add: params_J22 P22_def J22_sel window_cell_J22 wrapped_22)
  then show ?thesis by (simp add: params_J22 J22_sel weight_J22)
qed

lemma run_J22_above:
  "run_out (J22 5567) (impulse 10648 5567 v) ! 0 = 0"
proof -
  have "run_out (J22 5567) (impulse (nat (22 * 22 * 22)) 5567 v) ! 0 = 0"
  proof (rule impulse_run_miss [OF well_formed_J22], simp add: J22_sel, intro ballI)
    fix a b c :: int
    assume "a \<in> {1 - M_sp (the_params (Scales (J22 5567))) .. M_sp (the_params (Scales (J22 5567)))}"
      "b \<in> {1 - M_sp (the_params (Scales (J22 5567))) .. M_sp (the_params (Scales (J22 5567)))}"
      "c \<in> {1 - M_sp (the_params (Scales (J22 5567))) .. M_sp (the_params (Scales (J22 5567)))}"
    then have "a = 0 \<or> a = 1" "b = 0 \<or> b = 1" "c = 0 \<or> c = 1"
      by (auto simp add: params_J22 P22_def)
    then show "window_cell 22 22 22 (knots (J22 5567)) (knots_M (J22 5567)) 0 a b c \<noteq> int 5567"
      by (auto simp add: J22_sel window_cell_J22 wrapped_22)
  qed
  then show ?thesis by simp
qed

lemma params_K1: "the_params (Scales K1) = P1"
  by (simp add: K1_def params_I1)

lemma read_Scales_K1: "read_Scales (Scales K1) = Some P1"
  by (simp add: K1_def read_Scales_I1)

lemma K1_sel:
  "ftaur K1 = [1, 1, 1, 1, 1, 1, 1, 1]" "ftaui K1 = [0, 0, 0, 0, 0, 0, 0, 1]"
  "knots_M K1 = 1" "knots K1 = [1, 0, 0]"
  "E_3x K1 = [2, 3]" "E_3y K1 = [1, 1]" "E_3z K1 = [1, 1]"
  by (simp_all add: K1_def I1_def)

lemma well_formed_K1: "well_formed K1 2 2 2"
  unfolding well_formed_def params_K1 Let_def
  by (simp add: K1_def I1_def P1_def lattice_ok_def ax_m_2_1)

lemma cell_K1: "cell P1 1 0 0 l1 l2 l3 = wrapped 2 l1 + 2 * wrapped 2 l2 + 4 * wrapped 2 l3"
  by (subst cell_int [where Nx = 2 and Ny = 2 and Nz = 2])
     (simp_all add: P1_def ax_m_2_1)

lemma axis_2_1: "ax_E1 2 1 1 = exp (- (1 / 4))" "ax_rho 2 1 1 = exp (PI / 2)"
  by (simp_all add: ax_E1_def ax_rho_def ax_x_def ax_m_2_1)

lemma weight_K1:
  "weight K1 P1 1 0 0 l1 l2 l3 =
     exp (- (1 / 4)) * ([1, 1] ! nat l3 * [1, 1] ! nat l3) * ([1, 1] ! nat l2 * [1, 1] ! nat l2)
       * ([1, exp (PI / 2)] ! nat l1 * [2, 3] ! nat l1)"
  by (simp add: weight_def P1_def K1_sel axis_origin E2_of_1 axis_2_1)

lemma knot_val_K1:
  "knot_val_at K1 P1 (ftaur K1) 1 0 0 = exp (- (1 / 4)) * (8 + 12 * exp (PI / 2))"
  "knot_val_at K1 P1 (ftaui K1) 1 0 0 = exp (- (1 / 4)) * 2"
  by (simp_all add: knot_val_at_flat window_def P1_def upto_small K1_sel
        weight_K1 [unfolded P1_def] cell_K1 [unfolded P1_def] wrapped_2 algebra_simps)

lemma run_out_K1:
  "run_out K1 (ftaur K1) = [exp (- (1 / 4)) * (8 + 12 * exp (PI / 2))]"
  "run_out K1 (ftaui K1) = [exp (- (1 / 4)) * 2]"
  unfolding run_out_def params_K1
  by (simp_all add: knot_val_def kx_def ky_def kz_def K1_sel(3,4) knot_val_K1)

lemma mexFunction_K1:
  "mexFunction uninit K1 =
     Some ([exp (- (1 / 4)) * (8 + 12 * exp (PI / 2))], [exp (- (1 / 4)) * 2])"
  using well_formed_run_ok [OF well_formed_K1] by (simp add: mexFunction_eq run_out_K1)

lemma k_below_bounds: "0 \<le> k_below" "k_below < 2 * PI"
  by (simp_all add: k_below_def PI_def)

lemma dbl_46_k_below: "dbl (46 * k_below) = 5084608384270441 / 17592186044416"
  by (subst dbl_eval [where e = 8]) (simp_all add: k_below_def rne_def)

lemma ax_m_46: "ax_m 46 k_below = 46"
  unfolding ax_m_def dbl_46_k_below
  by (subst dbl_eval [where e = 5]) (simp_all add: PI_def rne_def)

lemma params_I46: "the_params (Scales I46) = P46"
  by (simp add: the_params_def I46_def P46_def c_int_def)

lemma I46_sel:
  "ftaur I46 = replicate 97336 1" "ftaui I46 = replicate 97336 0"
  "knots_M I46 = 1" "knots I46 = [k_below, 0, 0]"
  by (simp_all add: I46_def)

lemma Scales_I46: "Scales I46 = [23, 1, 1, 1, 46, 46, 46]"
  by (simp add: I46_def)

lemma cell_I46: "cell P46 k_below 0 0 23 22 22 = 97336"
  by (subst cell_int [where Nx = 46 and Ny = 46 and Nz = 46])
     (simp_all add: P46_def ax_m_46 wrapped_def)

lemma mexFunction_I46: "mexFunction uninit I46 = None"
proof -
  have "\<not> run_ok I46"
  proof
    assume ok: "run_ok I46"
    have w: "23 \<in> set (window (the_params (Scales I46)))"
      "22 \<in> set (window (the_params (Scales I46)))"
      by (simp_all add: params_I46 window_def P46_def)
    have i: "0 < knots_M I46" by (simp add: I46_sel)
    from run_ok_cells [OF ok i w(1) w(2) w(2)] show False
      by (simp add: params_I46 I46_sel cell_I46)
  qed
  then show ?thesis by (simp add: mexFunction_eq)
qed

subsection \<open>Example runs of the loops\<close>

lemma E_2dummy_of_eq:
  "E_2dummy_of M_r tau knot =
     (if M_r \<noteq> 0 \<and> tau \<noteq> 0 then Some (exp (spec_d M_r knot * PI / (M_r * tau))) else None)"
  by (simp add: E_2dummy_of_def axis_factors_eq ax_rho_def ax_x_def spec_d_def)

lemmas run_defs = knot_body_def rd_def wr_def axis_factors_def fdiv_def
  gen_E_2_def fwd_step_def bwd_step_def z_step_def y_step_def x_step_def wrap_ind_def
  lin_ind_def c_int_def c_bool_def N2_def M_rxd2_def M_ryd2_def M_rzd2_def TwoM_sp_def
  seed_E_2_def zero_step_def alloc_state_def malloc_def read_Scales_def Let_def

lemma seed_S1: "seed_E_2 P1 S1 = Some (S1\<lparr>E_2x := [1, 5], E_2y := [1, 5], E_2z := [1, 5]\<rparr>)"
  by (simp add: run_defs P1_def S1_def)

lemma knot_ok_I1: "knot_ok I1 P1 0"
  using well_formed_run_ok [OF well_formed_I1]
  by (simp add: run_ok_def params_I1 I1_sel upto_small)

lemma knot_loop_S1:
  "for_loop [0] (knot_body I1 P1) (S1\<lparr>E_2x := [1, 5], E_2y := [1, 5], E_2z := [1, 5]\<rparr>) =
     Some \<lparr>E_2x = [1, 1], E_2y = [1, 1], E_2z = [1, 1], outArrayR = [20], outArrayI = [2]\<rparr>"
proof -
  have i: "inv_state P1 (S1\<lparr>E_2x := [1, 5], E_2y := [1, 5], E_2z := [1, 5]\<rparr>)"
    by (simp add: inv_state_def S1_def P1_def TwoM_sp_def)
  have k: "kx I1 0 = 0" "ky I1 0 = 0" "kz I1 0 = 0"
    by (simp_all add: kx_def ky_def kz_def I1_sel)
  have g: "gen_state P1 0 0 0 s = s\<lparr>E_2x := [1, 1], E_2y := [1, 1], E_2z := [1, 1]\<rparr>" for s
    by (simp add: gen_state_def P1_def axis_origin E2_of_1_1)
  have "knot_body I1 P1 0 (S1\<lparr>E_2x := [1, 5], E_2y := [1, 5], E_2z := [1, 5]\<rparr>) =
          Some (acc 0 20 2 (S1\<lparr>E_2x := [1, 1], E_2y := [1, 1], E_2z := [1, 1]\<rparr>))"
    by (subst knot_body_eq [OF i]) (simp_all add: S1_def knot_ok_I1 knot_val_def k knot_val_I1 g)
  then show ?thesis by (simp add: S1_def acc_def)
qed

lemma fwd_loop_S0:
  "for_loop [M_sp P0 .. TwoM_sp P0 - 1] (fwd_step 2 2 2) S0 =
     Some (S0\<lparr>E_2x := [9, 1, 2, 4], E_2y := [8, 1, 2, 4], E_2z := [7, 1, 2, 4]\<rparr>)"
  by (simp add: run_defs P0_def S0_def)

lemma bwd_loop_S0:
  "for_loop (rev [0 .. M_sp P0 - 2]) (bwd_step 3 3 3) S0 =
     Some (S0\<lparr>E_2x := [3, 1, 9, 9], E_2y := [3, 1, 8, 8], E_2z := [3, 1, 7, 7]\<rparr>)"
  by (simp add: run_defs P0_def S0_def upto_small)

subsection \<open>The cells of a knot\<close>

lemma spec_sum_J22:
  "spec_sum spec_m P22 22 22 22 [2, 3] [1, 1] [1, 1] (impulse 10648 5567 1) PI 0 0 = 3"
  by (simp add: spec_sum_def P22_def int_set_01 spec_m_22 spec_cell_def wrapped_22
      spec_weight_def offset_d_def spec_E1_def E2_ratio_def impulse_nth)

subsection \<open>Scaled, added and negated grids\<close>

lemma map2_same: "map2 f xs xs = map (\<lambda>v. f v v) xs"
  by (simp add: zip_same_conv_map)

lemma run_out_scale:
  assumes "run_ok inp" "length f = length (ftaur inp) \<or> length f = length (ftaui inp)"
  shows "run_out inp (map (\<lambda>v. c * v) f) = map (\<lambda>v. c * v) (run_out inp f)"
proof -
  have "run_out inp (map (\<lambda>v. c * v) f) =
        map2 (\<lambda>u v. c * u + 0 * v) (run_out inp f) (run_out inp f)"
    using assms by (intro run_out_lin) auto
  then show ?thesis by (simp add: map2_same)
qed

lemma run_out_add:
  assumes "run_ok inp" "length f = length (ftaur inp) \<or> length f = length (ftaui inp)"
    "length g = length f"
  shows "run_out inp (map2 (+) f g) = map2 (+) (run_out inp f) (run_out inp g)"
proof -
  have "run_out inp (map2 (+) f g) =
        map2 (\<lambda>u v. 1 * u + 1 * v) (run_out inp f) (run_out inp g)"
    using assms by (intro run_out_lin) auto
  then show ?thesis by simp
qed

lemma run_out_zero:
  assumes "run_ok inp" "length f = length (ftaur inp) \<or> length f = length (ftaui inp)"
    "\<forall>v\<in>set f. v = 0"
  shows "\<forall>v\<in>set (run_out inp f). v = 0"
proof -
  have "run_out inp f = map2 (\<lambda>u v. 0 * u + 0 * v) (run_out inp f) (run_out inp f)"
    using assms by (intro run_out_lin) auto
  then have "run_out inp f = map (\<lambda>v. 0) (run_out inp f)" by (simp add: map2_same)
  then have "set (run_out inp f) \<subseteq> {0}" by (metis (no_types) image_subset_iff list.set_map singletonI)
  then show ?thesis by auto
qed

lemma run_out_neg:
  assumes "run_ok inp" "length f = length (ftaur inp) \<or> length f = length (ftaui inp)"
  shows "run_out inp (map uminus f) = map uminus (run_out inp f)"
proof -
  have "run_out inp (map uminus f) =
        map2 (\<lambda>u v. (- 1) * u + 0 * v) (run_out inp f) (run_out inp f)"
    using assms by (intro run_out_lin) auto
  then show ?thesis by (simp add: map2_same)
qed

lemma x_step_same_weight:
  assumes "x_step inp p i m1 V1r yind zind l1 s = Some t"
  shows "outArrayR t = (outArrayR s)[nat i := outArrayR s ! nat i
            + V1r * (E_2x s ! nat (M_sp p + l1 - 1) * E_3x inp ! nat (M_sp p + l1 - 1))
              * ftaur inp ! nat (lin_ind p (wrap_ind (M_rx p) (M_rxd2 p) (m1 + l1)) yind zind)] \<and>
         outArrayI t = (outArrayI s)[nat i := outArrayI s ! nat i
            + V1r * (E_2x s ! nat (M_sp p + l1 - 1) * E_3x inp ! nat (M_sp p + l1 - 1))
              * ftaui inp ! nat (lin_ind p (wrap_ind (M_rx p) (M_rxd2 p) (m1 + l1)) yind zind)]"
  using assms
  by (auto simp add: x_step_def rd_def wr_def bind_eq_Some_conv Let_def wrap_ind_c_def
      lin_ind_c_def ck_def split: if_splits)

lemma mexFunction_I1_swapped:
  "mexFunction uninit (I1\<lparr>ftaur := ftaui I1, ftaui := ftaur I1\<rparr>) = Some ([2], [20])"
proof -
  have l: "length (ftaui I1) = length (ftaur I1)" "length (ftaur I1) = length (ftaui I1)"
    by (simp_all add: I1_sel)
  show ?thesis
    using well_formed_run_ok [OF well_formed_I1]
    by (simp add: mexFunction_grid [OF l] run_out_I1)
qed

lemma knot_val_I1_zero: "knot_val_at I1 P1 [0, 0, 0, 0, 0, 0, 0, 0] 0 0 0 = 0"
  by (simp add: knot_val_at_flat window_def P1_def upto_small
        weight_I1 [unfolded P1_def] cell_P1 [unfolded P1_def] wrapped_2)

lemma mexFunction_I1_zero:
  "mexFunction uninit (I1\<lparr>ftaui := [0, 0, 0, 0, 0, 0, 0, 0]\<rparr>) = Some ([20], [0])"
proof -
  have e: "I1\<lparr>ftaui := [0, 0, 0, 0, 0, 0, 0, 0]\<rparr> =
           I1\<lparr>ftaur := ftaur I1, ftaui := [0, 0, 0, 0, 0, 0, 0, 0]\<rparr>"
    by simp
  have l: "length (ftaur I1) = length (ftaur I1)"
    "length [0 :: real, 0, 0, 0, 0, 0, 0, 0] = length (ftaui I1)"
    by (simp_all add: I1_sel)
  have "run_out I1 [0, 0, 0, 0, 0, 0, 0, 0] = [0]"
    unfolding run_out_def params_I1
    by (simp add: knot_val_def kx_def ky_def kz_def I1_sel(3,4) knot_val_I1_zero)
  then show ?thesis
    unfolding e using well_formed_run_ok [OF well_formed_I1]
    by (simp only: mexFunction_grid [OF l] run_out_I1 if_True)
qed

lemma x_step_S1:
  "x_step I1 P1 0 0 1 1 1 0 S1 = Some (S1\<lparr>outArrayR := [10], outArrayI := [10]\<rparr>)"
  by (simp add: x_step_def rd_def wr_def S1_def P1_def I1_def wrap_ind_def lin_ind_def
        c_int_def c_bool_def N2_def M_rxd2_def Let_def wrap_ind_c_def lin_ind_c_def ck_def
        int_ok_def)

subsection \<open>Rearranged knots\<close>

lemma knot_ok_at_knots: "knot_ok_at (inp\<lparr>knots := ks\<rparr>) p x y z = knot_ok_at inp p x y z"
  by (simp add: knot_ok_at_def okz_def oky_def okx_def)

lemma knot_val_at_knots: "knot_val_at (inp\<lparr>knots := ks\<rparr>) p g x y z = knot_val_at inp p g x y z"
  by (simp add: knot_val_at_def sz_def sy_def tx_def)

lemma length_permute_knots [simp]: "length (permute_knots f M ks) = 3 * M"
  by (simp add: permute_knots_def)

lemma permute_knots_nth:
  assumes "i < M"
  shows "permute_knots f M ks ! i = ks ! f i"
    "permute_knots f M ks ! (i + M) = ks ! (f i + M)"
    "permute_knots f M ks ! (i + 2 * M) = ks ! (f i + 2 * M)"
proof -
  have a: "i < 3 * M" "i + M < 3 * M" "i + 2 * M < 3 * M" using assms by simp_all
  have b: "(i + M) mod M = i" "(i + M) div M = 1" "(i + 2 * M) mod M = i"
    "(i + 2 * M) div M = 2"
    using assms by simp_all
  show "permute_knots f M ks ! i = ks ! f i"
    unfolding permute_knots_def using assms a(1) by simp
  show "permute_knots f M ks ! (i + M) = ks ! (f i + M)"
    unfolding permute_knots_def using a(2) assms by (simp add: b)
  show "permute_knots f M ks ! (i + 2 * M) = ks ! (f i + 2 * M)"
    unfolding permute_knots_def using a(3) assms by (simp add: b)
qed

lemma run_ok_knot:
  assumes "run_ok inp" "i < knots_M inp"
  shows "knot_ok_at inp (the_params (Scales inp)) (knots inp ! i)
      (knots inp ! (i + knots_M inp)) (knots inp ! (i + 2 * knots_M inp))"
proof -
  have "int i \<in> set [0 .. int (knots_M inp) - 1]" using assms(2) by simp
  then have "knot_ok inp (the_params (Scales inp)) (int i)"
    using assms(1) unfolding run_ok_def by blast
  then show ?thesis by (simp add: knot_ok_def kxyz_nat)
qed

lemma run_ok_permuted:
  assumes ok: "run_ok inp" and f: "\<forall>k<knots_M inp. f k < knots_M inp"
  shows "run_ok (inp\<lparr>knots := permute_knots f (knots_M inp) (knots inp)\<rparr>)"
proof -
  let ?inp = "inp\<lparr>knots := permute_knots f (knots_M inp) (knots inp)\<rparr>"
  have "knot_ok ?inp (the_params (Scales inp)) i" if "i \<in> set [0 .. int (knots_M inp) - 1]" for i
  proof -
    from that have i: "0 \<le> i" "i < int (knots_M inp)" by simp_all
    define j where "j = nat i"
    have ij: "i = int j" "j < knots_M inp" using i by (simp_all add: j_def)
    have fj: "f j < knots_M inp" using f ij(2) by simp
    have "knot_ok inp (the_params (Scales inp)) (int j)"
      using ok that unfolding run_ok_def ij(1) by blast
    then have io: "int_ok (int j + int (knots_M inp))" "int_ok (int j + 2 * int (knots_M inp))"
      by (simp_all add: knot_ok_def)
    show ?thesis
      unfolding ij(1) knot_ok_def kxyz_nat
      using ij(2) run_ok_knot [OF ok fj] io
      by (simp add: in_rng_def permute_knots_nth knot_ok_at_knots)
  qed
  then show ?thesis using ok by (simp add: run_ok_def conv_ok_def)
qed

lemma run_out_permuted:
  assumes f: "\<forall>k<knots_M inp. f k < knots_M inp"
  shows "run_out (inp\<lparr>knots := permute_knots f (knots_M inp) (knots inp)\<rparr>) g =
         map (\<lambda>k. run_out inp g ! f k) [0 ..< knots_M inp]"
proof (rule nth_equalityI)
  show "length (run_out (inp\<lparr>knots := permute_knots f (knots_M inp) (knots inp)\<rparr>) g) =
        length (map (\<lambda>k. run_out inp g ! f k) [0 ..< knots_M inp])"
    by simp
next
  fix i assume "i < length (run_out (inp\<lparr>knots := permute_knots f (knots_M inp) (knots inp)\<rparr>) g)"
  then have i: "i < knots_M inp" by simp
  then have fi: "f i < knots_M inp" using f by simp
  have i': "i < knots_M (inp\<lparr>knots := permute_knots f (knots_M inp) (knots inp)\<rparr>)"
    using i by simp
  show "run_out (inp\<lparr>knots := permute_knots f (knots_M inp) (knots inp)\<rparr>) g ! i =
        map (\<lambda>k. run_out inp g ! f k) [0 ..< knots_M inp] ! i"
    using i by (simp add: run_out_nth [OF i'] run_out_nth [OF fi] permute_knots_nth
        knot_val_at_knots)
qed

lemma run_out_other_knots:
  assumes "i < knots_M inp" "ks ! i = knots inp ! i"
    "ks ! (i + knots_M inp) = knots inp ! (i + knots_M inp)"
    "ks ! (i + 2 * knots_M inp) = knots inp ! (i + 2 * knots_M inp)"
  shows "run_out (inp\<lparr>knots := ks\<rparr>) g ! i = run_out inp g ! i"
proof -
  have i': "i < knots_M (inp\<lparr>knots := ks\<rparr>)" using assms(1) by simp
  show ?thesis
    by (simp add: run_out_nth [OF i'] run_out_nth [OF assms(1)] assms(2-4) knot_val_at_knots)
qed

lemma I2_sel:
  "ftaur I2 = [1, 0, 0, 0, 0, 0, 0, 0]" "ftaui I2 = [0, 0, 0, 0, 0, 0, 0, 1]"
  "knots_M I2 = 2" "knots I2 = [0, PI, 0, 0, 0, 0]"
  by (simp_all add: I2_def)

lemma params_I2: "the_params (Scales I2) = P1"
  by (simp add: the_params_def I2_def P1_def c_int_def)

lemma params_I2_knots: "the_params (Scales (I2\<lparr>knots := ks\<rparr>)) = P1"
  by (simp add: params_I2)

lemma well_formed_I2: "well_formed I2 2 2 2"
  unfolding well_formed_def params_I2 Let_def
  by (simp add: I2_def P1_def lattice_ok_def all_less_two ax_m_2_PI)

lemma well_formed_I2_origin: "well_formed (I2\<lparr>knots := [0, 0, 0, 0, 0, 0]\<rparr>) 2 2 2"
  unfolding well_formed_def params_I2_knots Let_def
  by (simp add: I2_def P1_def lattice_ok_def all_less_two)

lemma axis_PI: "ax_m 2 PI = 1" "ax_E1 2 tau PI = 1" "ax_rho 2 tau PI = 1"
proof -
  show m: "ax_m 2 PI = 1" by (rule ax_m_2_PI)
  have x: "ax_x 2 PI = 0" by (simp add: ax_x_def m)
  show "ax_E1 2 tau PI = 1" "ax_rho 2 tau PI = 1"
    by (simp_all add: ax_E1_def ax_rho_def x)
qed

lemma wrapped_2_2: "wrapped 2 2 = 1"
  by (simp add: wrapped_def)

lemma cell_P1_PI:
  "cell P1 PI 0 0 l1 l2 l3 = wrapped 2 (1 + l1) + 2 * wrapped 2 l2 + 4 * wrapped 2 l3"
  by (subst cell_int [where Nx = 2 and Ny = 2 and Nz = 2])
     (simp_all add: P1_def axis_origin axis_PI)

lemma weight_I2:
  "weight I2 P1 0 0 0 l1 l2 l3 =
     [1, 1] ! nat l3 * [1, 1] ! nat l3 * ([1, 1] ! nat l2 * [1, 1] ! nat l2)
       * ([1, 1] ! nat l1 * [2, 3] ! nat l1)"
  "weight I2 P1 PI 0 0 l1 l2 l3 =
     [1, 1] ! nat l3 * [1, 1] ! nat l3 * ([1, 1] ! nat l2 * [1, 1] ! nat l2)
       * ([1, 1] ! nat l1 * [2, 3] ! nat l1)"
  by (simp_all add: weight_def P1_def I2_def axis_origin axis_PI E2_of_1_1)

lemma knot_val_I2:
  "knot_val_at I2 P1 (ftaur I2) 0 0 0 = 3" "knot_val_at I2 P1 (ftaui I2) 0 0 0 = 2"
  "knot_val_at I2 P1 (ftaur I2) PI 0 0 = 2" "knot_val_at I2 P1 (ftaui I2) PI 0 0 = 3"
  by (simp_all add: knot_val_at_flat window_def P1_def upto_small I2_sel
        weight_I2 [unfolded P1_def] cell_P1 [unfolded P1_def] cell_P1_PI [unfolded P1_def]
        wrapped_2 wrapped_2_2)

lemma upt_2: "[0 ..< 2] = [0, Suc 0]"
  by (simp add: upt_rec)

lemma run_out_I2:
  "run_out I2 (ftaur I2) = [3, 2]" "run_out I2 (ftaui I2) = [2, 3]"
  unfolding run_out_def params_I2
  by (simp_all add: knot_val_def kx_def ky_def kz_def I2_sel(3,4) knot_val_I2 upt_2)

lemma mexFunction_I2: "mexFunction uninit I2 = Some ([3, 2], [2, 3])"
  using well_formed_run_ok [OF well_formed_I2] by (simp add: mexFunction_eq run_out_I2)

lemma run_out_I2_origin:
  "run_out (I2\<lparr>knots := [0, 0, 0, 0, 0, 0]\<rparr>) (ftaur I2) = [3, 3]"
  "run_out (I2\<lparr>knots := [0, 0, 0, 0, 0, 0]\<rparr>) (ftaui I2) = [2, 2]"
  unfolding run_out_def params_I2_knots
  by (simp_all add: knot_val_def kx_def ky_def kz_def I2_sel(3)
        knot_val_at_knots knot_val_I2 upt_2)

lemma mexFunction_I2_origin:
  "mexFunction uninit (I2\<lparr>knots := [0, 0, 0, 0, 0, 0]\<rparr>) = Some ([3, 3], [2, 2])"
  using well_formed_run_ok [OF well_formed_I2_origin]
  by (simp add: mexFunction_eq run_out_I2_origin)

subsection \<open>A knot on a lattice point\<close>

lemma wrapped_cell_angle:
  assumes "even N" "0 < N" "0 \<le> j" "j < N"
  shows "wrapped N ((j + N div 2) mod N) = j"
proof -
  obtain H where N: "N = 2 * H" using assms(1) by (elim evenE)
  have d: "N div 2 = H" by (simp add: N)
  show ?thesis
  proof (cases "j < H")
    case True
    then have "(j + H) mod N = j + H" using assms N by simp
    then show ?thesis using True assms unfolding wrapped_def d by (simp add: N)
  next
    case False
    then have "(j + H) mod N = j + H - N"
      using assms N by (simp add: mod_pos_geq)
    then show ?thesis using False assms unfolding wrapped_def d by (simp add: N)
  qed
qed

lemma params_I4: "the_params (Scales I4) = P4"
  by (simp add: the_params_def I4_def P4_def c_int_def)

lemma read_Scales_I4: "read_Scales (Scales I4) = Some P4"
  by (simp add: read_Scales_eq params_I4) (simp add: I4_def int_ok_def c_int_def)

lemma dbl_1: "dbl 1 = 1"
  by (subst dbl_eval [where e = 0]) (simp_all add: rne_def)

lemma ax_m_4_half_PI: "ax_m 4 (PI / 2) = 1"
  by (simp add: ax_m_def dbl_2_PI dbl_1)

lemma well_formed_I4: "well_formed I4 4 4 4"
  unfolding well_formed_def params_I4 Let_def
  by (simp add: I4_def P4_def lattice_ok_def ax_m_4_half_PI ax_m_4_PI)

lemma mexFunction_I4:
  "mexFunction uninit I4 = Some (run_out I4 (ftaur I4), run_out I4 (ftaui I4))"
  using well_formed_run_ok [OF well_formed_I4] by (simp add: mexFunction_eq)

lemma weight_centre:
  assumes "grid_shape p Nx Ny Nz"
    and "x = of_int (ax_m (of_int Nx) x) * (2 * PI / of_int Nx)"
    and "y = of_int (ax_m (of_int Ny) y) * (2 * PI / of_int Ny)"
    and "z = of_int (ax_m (of_int Nz) z) * (2 * PI / of_int Nz)"
  shows "weight inp p x y z 0 0 0 =
         E_3x inp ! nat (M_sp p - 1) * E_3y inp ! nat (M_sp p - 1) * E_3z inp ! nat (M_sp p - 1)"
proof -
  have sh: "M_rx p = of_int Nx" "M_ry p = of_int Ny" "M_rz p = of_int Nz"
    and n: "1 \<le> M_sp p"
    using assms(1) by (simp_all add: grid_shape_def)
  have w: "0 \<in> set (window p)" using n by (simp add: window_def)
  have d: "offset_d (of_int Nx) x (ax_m (of_int Nx) x) = 0"
    "offset_d (of_int Ny) y (ax_m (of_int Ny) y) = 0"
    "offset_d (of_int Nz) z (ax_m (of_int Nz) z) = 0"
    using assms(2-4) by (simp_all add: offset_d_def)
  show ?thesis
    unfolding weight_spec [OF sh w w w] spec_weight_def d
    by (simp add: spec_E1_def)
qed

lemma exp_J22: "exp (- (PI * PI / 484)) * (exp (PI * PI / 242) * 3) = 3 * exp (PI * PI / 484)"
proof -
  have "exp (- (PI * PI / 484)) * exp (PI * PI / 242) = exp (- (PI * PI / 484) + PI * PI / 242)"
    by (simp only: exp_add)
  also have "- (PI * PI / 484) + PI * PI / 242 = PI * PI / 484" by simp
  finally show ?thesis by simp
qed

lemma exp_J22_gt: "2 < 3 * exp (PI * PI / 484)"
proof -
  have "0 \<le> PI * PI / 484" by simp
  then have "1 \<le> exp (PI * PI / 484)" by (simp only: one_le_exp_iff)
  then show ?thesis by linarith
qed

subsection \<open>The response to an impulse\<close>

lemma impulse_run_envelope:
  assumes wf: "well_formed inp Nx Ny Nz" and i: "i < knots_M inp"
    and l: "l1 \<in> {1 - M_sp (the_params (Scales inp)) .. M_sp (the_params (Scales inp))}"
      "l2 \<in> {1 - M_sp (the_params (Scales inp)) .. M_sp (the_params (Scales inp))}"
      "l3 \<in> {1 - M_sp (the_params (Scales inp)) .. M_sp (the_params (Scales inp))}"
    and hit: "window_cell Nx Ny Nz (knots inp) (knots_M inp) i l1 l2 l3 = int c0"
  shows "run_out inp (impulse (nat (Nx * Ny * Nz)) c0 v) ! i =
           v * (envelope_at (the_params (Scales inp)) Nx Ny Nz (knots inp) (knots_M inp) i l1 l2 l3
                * tables_dev inp (the_params (Scales inp)) Nx Ny Nz l1 l2 l3)"
proof -
  define p where "p = the_params (Scales inp)"
  have g: "grid_shape p Nx Ny Nz" unfolding p_def by (rule well_formed_shape [OF wf])
  have tau: "taux p \<noteq> 0" "tauy p \<noteq> 0" "tauz p \<noteq> 0"
    using wf by (simp_all add: well_formed_def Let_def p_def)
  have w: "l1 \<in> set (window p)" "l2 \<in> set (window p)" "l3 \<in> set (window p)"
    using l by (simp_all add: set_window p_def)
  show ?thesis
    unfolding impulse_run_hit [OF wf i l hit] p_def [symmetric]
      weight_gauss [OF g tau w] envelope_at_def tables_dev_def
    by simp
qed

lemma params_I5: "the_params (Scales I5) = P5"
  by (simp add: the_params_def I5_def P5_def c_int_def)

lemma params_I5_knots: "the_params (Scales (I5\<lparr>knots := ks\<rparr>)) = P5"
  by (simp add: params_I5)

lemma read_Scales_I5: "read_Scales (Scales I5) = Some P5"
  by (simp add: read_Scales_eq params_I5) (simp add: I5_def int_ok_def c_int_def)

lemma well_formed_I5:
  "well_formed I5 4 4 4" "well_formed (I5\<lparr>knots := [1, 0, 0]\<rparr>) 4 4 4"
  "well_formed (I5\<lparr>knots := [PI, 0, 0]\<rparr>) 4 4 4"
  unfolding well_formed_def params_I5 params_I5_knots Let_def
  by (simp_all add: I5_def P5_def lattice_ok_def ax_m_4_1 ax_m_4_PI)

lemma spec_d_I5: "spec_d 4 0 = 0" "spec_d 4 1 = 1"
  by (simp_all add: spec_d_def ax_m_4_1)

lemma wrapped_4: "wrapped 4 0 = 2" "wrapped 4 1 = 3" "wrapped 4 2 = 0" "wrapped 4 3 = 1"
  by (simp_all add: wrapped_def)

lemma tables_dev_I5: "tables_dev (I5\<lparr>knots := ks\<rparr>) P5 4 4 4 0 0 0 = 1"
  "tables_dev I5 P5 4 4 4 0 0 0 = 1"
  by (simp_all add: tables_dev_def table_dev_def gauss_factor_def P5_def I5_def)

section \<open>Properties of the convolution\<close>

text \<open>
  C3.  The ratio that generates the weight sequence of an axis is
  \<open>E_2dummy = exp (d * PI / (N * tau))\<close>, where \<open>d\<close> is the sub-cell offset
  \<open>knot - m * (2 * PI / N)\<close>: the exponent carries the factor \<open>PI\<close>, not \<open>2 * PI\<close>
  (lines 140-151).  The ratio exists when \<open>N\<close> and \<open>tau\<close> are not zero.
\<close>

theorem ratio_is_exp_d_PI:
  "E_2dummy_of M_r tau knot =
     (if M_r \<noteq> 0 \<and> tau \<noteq> 0 then Some (exp (spec_d M_r knot * PI / (M_r * tau))) else None)"
  by (rule E_2dummy_of_eq)

theorem ratio_is_exp_d_PI_witness:
  "E_2dummy_of 2 1 1 = Some (exp (PI / 2))"
  using ratio_is_exp_d_PI [of 2 1 1] by (simp add: spec_d_def ax_m_2_1)

text \<open>
  C3, as the specification words it (\<open>exp (d * 2 * PI / (N * tau))\<close>), fails for the knot
  coordinate 1 on an axis with \<open>N = 2\<close> and \<open>tau = 1\<close>: there \<open>d = 1\<close>, the code computes
  \<open>exp (PI / 2)\<close> and the stated formula gives \<open>exp PI\<close>.
\<close>

theorem ratio_counterexample:
  "E_2dummy_of 2 1 1 = Some (exp (PI / 2)) \<and> spec_rho 2 1 1 = exp PI \<and>
   E_2dummy_of 2 1 1 \<noteq> Some (spec_rho 2 1 1)"
  by (simp add: E_2dummy_of_eq spec_rho_def spec_d_def ax_m_2_1)

text \<open>
  C4.  For nonzero ratios, and scratch buffers of length \<open>2 * M_sp\<close> whose central slot
  holds 1, the two recurrence loops (lines 160-173) leave in every buffer exactly the
  table of the commented-out loop \<open>E_2x[j] = pow(E_2xdummy, j - M_sp + 1)\<close>
  (lines 153-157); the slot of the offset \<open>l\<close> holds the ratio to the power \<open>l\<close>.
\<close>

theorem recurrence_equals_pow:
  assumes "rx \<noteq> 0" "ry \<noteq> 0" "rz \<noteq> 0" "inv_state p s"
  shows "gen_E_2 p rx ry rz (1 / rx) (1 / ry) (1 / rz) s =
           Some (s\<lparr>E_2x := E_2_pow (M_sp p) rx, E_2y := E_2_pow (M_sp p) ry,
                   E_2z := E_2_pow (M_sp p) rz\<rparr>) \<and>
         (\<forall>l\<in>{1 - M_sp p .. M_sp p}.
            E_2_pow (M_sp p) rx ! nat (M_sp p + l - 1) = power_int rx l \<and>
            E_2_pow (M_sp p) ry ! nat (M_sp p + l - 1) = power_int ry l \<and>
            E_2_pow (M_sp p) rz ! nat (M_sp p + l - 1) = power_int rz l)"
  using gen_E_2_pow [OF assms] by (simp add: E_2_pow_nth)

theorem recurrence_equals_pow_witness:
  "gen_E_2 P0 2 3 (1 / 2) (1 / 2) (1 / 3) (1 / (1 / 2)) S0 =
     Some (S0\<lparr>E_2x := [1 / 2, 1, 2, 4], E_2y := [1 / 3, 1, 3, 9],
              E_2z := [2, 1, 1 / 2, 1 / 4]\<rparr>)"
  using recurrence_equals_pow [of 2 3 "1 / 2" P0 S0]
  by (simp add: inv_state_def P0_def S0_def TwoM_sp_def E_2_pow_def upt_rec power_int_def
        power2_eq_square)

text \<open>
  C5.  Once the seed (lines 124-126) has been written, the central slot (index
  \<open>M_sp - 1\<close>) of each of \<open>E_2x\<close>, \<open>E_2y\<close>, \<open>E_2z\<close> holds 1 before the knot loop and after
  any number of its iterations.  The forward recurrence changes no slot outside
  \<open>M_sp .. 2 * M_sp - 1\<close> and the backward recurrence none outside \<open>0 .. M_sp - 2\<close>.
\<close>

theorem centre_tap_invariant:
  assumes "seed_E_2 p s0 = Some s1"
    and "for_loop js (knot_body inp p) s1 = Some s'"
    and "for_loop [M_sp q .. TwoM_sp q - 1] (fwd_step dx dy dz) a = Some b"
    and "for_loop (rev [0 .. M_sp q - 2]) (bwd_step ix iy iz) c = Some d"
  shows "centre_one p s1 \<and> centre_one p s' \<and>
         bufs_unchanged (M_sp q) (TwoM_sp q - 1) a b \<and>
         bufs_unchanged 0 (M_sp q - 2) c d"
proof -
  have c1: "centre_ok p s1" by (rule seed_centre [OF assms(1)])
  have "centre_ok p s'"
    by (rule for_loop_inv [OF assms(2), where P = "centre_ok p"])
       (simp_all add: c1 knot_body_centre)
  moreover have "bufs_unchanged (M_sp q) (TwoM_sp q - 1) a b"
    by (rule fwd_loop_frame [OF assms(3)]) simp
  moreover have "bufs_unchanged 0 (M_sp q - 2) c d"
    by (rule bwd_loop_frame [OF assms(4)]) simp
  ultimately show ?thesis using c1 by (simp add: centre_ok_def)
qed

theorem centre_tap_invariant_witness:
  "centre_one P1 (S1\<lparr>E_2x := [1, 5], E_2y := [1, 5], E_2z := [1, 5]\<rparr>) \<and>
   centre_one P1 \<lparr>E_2x = [1, 1], E_2y = [1, 1], E_2z = [1, 1],
                  outArrayR = [20], outArrayI = [2]\<rparr> \<and>
   bufs_unchanged 2 3 S0 (S0\<lparr>E_2x := [9, 1, 2, 4], E_2y := [8, 1, 2, 4], E_2z := [7, 1, 2, 4]\<rparr>) \<and>
   bufs_unchanged 0 0 S0 (S0\<lparr>E_2x := [3, 1, 9, 9], E_2y := [3, 1, 8, 8], E_2z := [3, 1, 7, 7]\<rparr>)"
  using centre_tap_invariant [OF seed_S1 knot_loop_S1 fwd_loop_S0 bwd_loop_S0]
  by (simp add: P0_def TwoM_sp_def)

text \<open>
  C1.  Whenever a run returns, and the grid extents are even integers, the real and the
  imaginary output of knot \<open>i\<close> are the triple sum, over the offsets
  \<open>l1, l2, l3\<close> in \<open>1 - M_sp .. M_sp\<close>, of
  \<open>E1x * E1y * E1z * (rho_x ^ l1 * E_3x[l1]) * (rho_y ^ l2 * E_3y[l2]) * (rho_z ^ l3 * E_3z[l3])\<close>
  times the grid sample at the wrapped cell, with \<open>d = knot - m * (2 * PI / N)\<close>,
  \<open>E1 = exp (- d\<^sup>2 / (4 * tau))\<close>, the ratio \<open>rho = exp (d * PI / (N * tau))\<close> that the
  program uses, and \<open>m\<close> the lattice index that line 135 computes: the floor of the
  quotient \<open>N * knot / (2 * PI)\<close> as binary64 arithmetic rounds the product and the
  quotient (\<open>ax_m\<close>), which need not be the floor of the exact quotient.
\<close>

theorem output_is_windowed_sum:
  assumes "mexFunction uninit inp = Some (oR, oI)"
    and "read_Scales (Scales inp) = Some p"
    and "M_rx p = of_int Nx" "M_ry p = of_int Ny" "M_rz p = of_int Nz"
    and "even Nx" "even Ny" "even Nz"
    and "i < knots_M inp"
  shows "oR ! i = spec_sum ax_m p Nx Ny Nz (E_3x inp) (E_3y inp) (E_3z inp) (ftaur inp)
                    (knots inp ! i) (knots inp ! (i + knots_M inp))
                    (knots inp ! (i + 2 * knots_M inp)) \<and>
         oI ! i = spec_sum ax_m p Nx Ny Nz (E_3x inp) (E_3y inp) (E_3z inp) (ftaui inp)
                    (knots inp ! i) (knots inp ! (i + knots_M inp))
                    (knots inp ! (i + 2 * knots_M inp))"
proof -
  have p: "p = the_params (Scales inp)" using read_Scales_Some [OF assms(2)] by simp
  have o: "oR = run_out inp (ftaur inp)" "oI = run_out inp (ftaui inp)"
    using mexFunction_Some [OF assms(1)] by simp_all
  show ?thesis
    unfolding o run_out_nth [OF assms(9)] p [symmetric]
    by (simp add: knot_val_at_spec [OF assms(3-8)])
qed

theorem output_is_windowed_sum_witness:
  "[exp (- (1 / 4)) * (8 + 12 * exp (PI / 2))] ! 0 =
     spec_sum ax_m P1 2 2 2 [2, 3] [1, 1] [1, 1] [1, 1, 1, 1, 1, 1, 1, 1] 1 0 0 \<and>
   [exp (- (1 / 4)) * 2] ! 0 =
     spec_sum ax_m P1 2 2 2 [2, 3] [1, 1] [1, 1] [0, 0, 0, 0, 0, 0, 0, 1] 1 0 0"
  using output_is_windowed_sum [OF mexFunction_K1 [of zeros] read_Scales_K1,
      of 2 2 2 0]
  by (simp add: P1_def K1_sel)

text \<open>
  C1, as the specification words it (\<open>m = floor (N * knot / (2 * PI))\<close>, the floor of the
  exact quotient), fails for the knot \<open>(PI, 0, 0)\<close> on a 22 x 22 x 22 grid with half width
  1.  The exact quotient \<open>22 * PI / (2 * PI)\<close> is 11, but the rounded product \<open>22 * PI\<close>
  lies below the exact one, the rounded quotient lies below 11, and the program takes
  \<open>m = 10\<close>.  With the only nonzero sample at the cell of the lattice point 12 the stated
  sum is 3 and the program returns 0.
\<close>

theorem windowed_sum_counterexample:
  "read_Scales (Scales (J22 5567)) = Some P22 \<and> knots (J22 5567) = [PI, 0, 0] \<and>
   spec_m 22 PI = 11 \<and> ax_m 22 PI = 10 \<and>
   mexFunction zeros (J22 5567) = Some ([0], [0]) \<and>
   spec_sum spec_m P22 22 22 22 (E_3x (J22 5567)) (E_3y (J22 5567)) (E_3z (J22 5567))
     (ftaur (J22 5567)) PI 0 0 = 3"
  by (simp add: read_Scales_J22 spec_m_22 ax_m_22_PI run_J22 run_J22_above J22_sel
      spec_sum_J22)

text \<open>
  C2.  The input below meets the stated preconditions: every knot coordinate lies in
  \<open>[0, 2 * PI)\<close>, the extents are the positive even integer 46, and \<open>M_sp = 23\<close> with
  \<open>2 * M_sp = 46\<close>.  Its knot has the largest binary64 number below \<open>2 * PI\<close> as x
  coordinate.  Line 135 rounds the quotient \<open>46 * knot / (2 * PI)\<close> up to 46, so
  \<open>m1 = 46\<close>; for the offset \<open>l1 = 23\<close> line 211 gives \<open>xind = 46\<close>, outside \<open>[0, 46)\<close>; and
  for \<open>l2 = l3 = 22\<close> line 213 gives the linear index \<open>97336 = 46\<^sup>3\<close>, one past the last
  of the 97336 grid samples.  The run reads outside the grid arrays.
\<close>

theorem wrapped_index_reaches_extent:
  "Scales I46 = [23, 1, 1, 1, 46, 46, 46] \<and> knots I46 = [k_below, 0, 0] \<and>
   0 \<le> k_below \<and> k_below < 2 * PI \<and>
   lattice_index 46 k_below = Some 46 \<and>
   wrap_ind_c 46 23 46 23 = Some 46 \<and>
   lin_ind_c P46 46 45 45 = Some 97336 \<and>
   cell P46 k_below 0 0 23 22 22 = 97336 \<and>
   length (ftaur I46) = 97336 \<and> rd (ftaur I46) 97336 = None \<and>
   mexFunction zeros I46 = None"
  by (simp add: I46_sel Scales_I46 k_below_bounds lattice_index_eq ax_m_46 int_ok_def
      wrap_ind_c_def ck_def wrap_ind_def c_bool_def c_int_def lin_ind_c_def lin_ind_def N2_def
      P46_def cell_I46 [unfolded P46_def] rd_def mexFunction_I46)

text \<open>
  C6.  With knots, kernel tables and parameters fixed, the outputs are linear in the grid
  samples.  If the run on a grid returns, the run on the grid scaled by \<open>c\<close> returns every
  output scaled by \<open>c\<close>; if the runs on two grids of the same size return, the run on their
  component-wise sum returns the component-wise sum of the two outputs.
\<close>

theorem linear_in_grid:
  assumes "mexFunction u1 inp = Some (aR, aI)"
    and "mexFunction u2 (inp\<lparr>ftaur := gr, ftaui := gi\<rparr>) = Some (bR, bI)"
    and "length gr = length (ftaur inp)" "length gi = length (ftaui inp)"
  shows "mexFunction u3 (inp\<lparr>ftaur := map (\<lambda>v. c * v) (ftaur inp),
                           ftaui := map (\<lambda>v. c * v) (ftaui inp)\<rparr>) =
           Some (map (\<lambda>v. c * v) aR, map (\<lambda>v. c * v) aI) \<and>
         mexFunction u4 (inp\<lparr>ftaur := map2 (+) (ftaur inp) gr,
                           ftaui := map2 (+) (ftaui inp) gi\<rparr>) =
           Some (map2 (+) aR bR, map2 (+) aI bI)"
proof -
  have ok: "run_ok inp" and a: "aR = run_out inp (ftaur inp)" "aI = run_out inp (ftaui inp)"
    using mexFunction_Some [OF assms(1)] by simp_all
  have b: "bR = run_out inp gr" "bI = run_out inp gi"
    using assms(2) ok by (simp_all add: mexFunction_grid [OF assms(3,4)])
  have "mexFunction u3 (inp\<lparr>ftaur := map (\<lambda>v. c * v) (ftaur inp),
                           ftaui := map (\<lambda>v. c * v) (ftaui inp)\<rparr>) =
           Some (map (\<lambda>v. c * v) aR, map (\<lambda>v. c * v) aI)"
    using ok by (subst mexFunction_grid) (simp_all add: a run_out_scale)
  moreover have "mexFunction u4 (inp\<lparr>ftaur := map2 (+) (ftaur inp) gr,
                           ftaui := map2 (+) (ftaui inp) gi\<rparr>) =
           Some (map2 (+) aR bR, map2 (+) aI bI)"
    using ok assms(3,4) by (subst mexFunction_grid) (simp_all add: a b run_out_add)
  ultimately show ?thesis by simp
qed

theorem linear_in_grid_witness:
  "mexFunction (\<lambda>_ _. 0) (I1\<lparr>ftaur := [3, 3, 3, 3, 3, 3, 3, 3],
                               ftaui := [0, 0, 0, 0, 0, 0, 0, 3]\<rparr>) = Some ([60], [6]) \<and>
   mexFunction (\<lambda>_ _. 0) (I1\<lparr>ftaur := [1, 1, 1, 1, 1, 1, 1, 2],
                               ftaui := [1, 1, 1, 1, 1, 1, 1, 2]\<rparr>) = Some ([22], [22])"
  using linear_in_grid [OF mexFunction_I1 [of "\<lambda>_ _. 0"] mexFunction_I1_swapped [of "\<lambda>_ _. 0"],
      of "\<lambda>_ _. 0" 3 "\<lambda>_ _. 0"]
  by (simp add: I1_sel)

text \<open>
  C10.  Each accumulation step adds to the real and to the imaginary accumulator the
  same real weight times the real, respectively imaginary, grid sample of the same cell.
  Hence, for a run that returns: if the imaginary grid array is zero everywhere, every
  imaginary output is zero; and the run on the grid with its imaginary array negated
  returns the same real outputs and the negated imaginary outputs.
\<close>

theorem real_weights_on_both_components:
  assumes "x_step inp' p i m1 V1r yind zind l1 s = Some t"
    and "mexFunction u0 inp0 = Some (zR, zI)" "\<forall>v\<in>set (ftaui inp0). v = 0"
    and "mexFunction u inp = Some (oR, oI)"
  shows "(outArrayR t = (outArrayR s)[nat i := outArrayR s ! nat i
            + V1r * (E_2x s ! nat (M_sp p + l1 - 1) * E_3x inp' ! nat (M_sp p + l1 - 1))
              * ftaur inp' ! nat (lin_ind p (wrap_ind (M_rx p) (M_rxd2 p) (m1 + l1)) yind zind)] \<and>
          outArrayI t = (outArrayI s)[nat i := outArrayI s ! nat i
            + V1r * (E_2x s ! nat (M_sp p + l1 - 1) * E_3x inp' ! nat (M_sp p + l1 - 1))
              * ftaui inp' ! nat (lin_ind p (wrap_ind (M_rx p) (M_rxd2 p) (m1 + l1)) yind zind)]) \<and>
         (\<forall>v\<in>set zI. v = 0) \<and>
         mexFunction u' (inp\<lparr>ftaui := map uminus (ftaui inp)\<rparr>) = Some (oR, map uminus oI)"
proof -
  have ok: "run_ok inp" and o: "oR = run_out inp (ftaur inp)" "oI = run_out inp (ftaui inp)"
    using mexFunction_Some [OF assms(4)] by simp_all
  have ok0: "run_ok inp0" and o0: "zI = run_out inp0 (ftaui inp0)"
    using mexFunction_Some [OF assms(2)] by simp_all
  have z: "\<forall>v\<in>set zI. v = 0"
    unfolding o0 using run_out_zero [OF ok0 _ assms(3)] by simp
  have "mexFunction u' (inp\<lparr>ftaur := ftaur inp, ftaui := map uminus (ftaui inp)\<rparr>) =
          Some (oR, map uminus oI)"
    using ok by (subst mexFunction_grid) (simp_all add: o run_out_neg)
  then have n: "mexFunction u' (inp\<lparr>ftaui := map uminus (ftaui inp)\<rparr>) = Some (oR, map uminus oI)"
    by simp
  show ?thesis using x_step_same_weight [OF assms(1)] z n by blast
qed

theorem real_weights_on_both_components_witness:
  "x_step I1 P1 0 0 1 1 1 0 S1 = Some (S1\<lparr>outArrayR := [10], outArrayI := [10]\<rparr>) \<and>
   mexFunction (\<lambda>_ _. 0) (I1\<lparr>ftaui := [0, 0, 0, 0, 0, 0, 0, 0]\<rparr>) = Some ([20], [0]) \<and>
   mexFunction (\<lambda>_ _. 0) (I1\<lparr>ftaui := [0, 0, 0, 0, 0, 0, 0, - 1]\<rparr>) = Some ([20], [- 2])"
  using real_weights_on_both_components [OF x_step_S1 mexFunction_I1_zero [of "\<lambda>_ _. 0"] _
      mexFunction_I1 [of "\<lambda>_ _. 0"], of "\<lambda>_ _. 0"]
  by (simp add: I1_sel x_step_S1 mexFunction_I1_zero)

text \<open>
  C9.  The outputs of knot \<open>i\<close> depend on the knot array only through the three
  coordinates of knot \<open>i\<close>: two runs that return, on inputs that differ only in the
  knot array and agree on the coordinates of knot \<open>i\<close>, give the same outputs for knot
  \<open>i\<close>, whatever the initial contents of the scratch buffers and of the output arrays.
  A run does not depend on those initial contents.  If the knots are rearranged by a
  map \<open>f\<close> of the knot indices into themselves (in particular by a permutation), the run
  on the rearranged knots returns the outputs rearranged in the same way.
\<close>

theorem knots_are_independent:
  assumes "mexFunction u inp = Some (oR, oI)"
    and "mexFunction u' (inp\<lparr>knots := ks\<rparr>) = Some (oR', oI')"
    and "i < knots_M inp"
    and "ks ! i = knots inp ! i"
    and "ks ! (i + knots_M inp) = knots inp ! (i + knots_M inp)"
    and "ks ! (i + 2 * knots_M inp) = knots inp ! (i + 2 * knots_M inp)"
    and "\<forall>k<knots_M inp. f k < knots_M inp"
  shows "oR' ! i = oR ! i \<and> oI' ! i = oI ! i \<and>
         mexFunction v inp = Some (oR, oI) \<and>
         mexFunction w (inp\<lparr>knots := permute_knots f (knots_M inp) (knots inp)\<rparr>) =
           Some (map (\<lambda>k. oR ! f k) [0 ..< knots_M inp],
                 map (\<lambda>k. oI ! f k) [0 ..< knots_M inp])"
proof -
  have ok: "run_ok inp" and o: "oR = run_out inp (ftaur inp)" "oI = run_out inp (ftaui inp)"
    using mexFunction_Some [OF assms(1)] by simp_all
  have o': "oR' = run_out (inp\<lparr>knots := ks\<rparr>) (ftaur inp)"
    "oI' = run_out (inp\<lparr>knots := ks\<rparr>) (ftaui inp)"
    using mexFunction_Some [OF assms(2)] by simp_all
  have a: "oR' ! i = oR ! i \<and> oI' ! i = oI ! i"
    unfolding o o' by (simp add: run_out_other_knots [OF assms(3-6)])
  have b: "mexFunction v inp = Some (oR, oI)"
    using ok by (simp add: mexFunction_eq o)
  have c: "mexFunction w (inp\<lparr>knots := permute_knots f (knots_M inp) (knots inp)\<rparr>) =
           Some (map (\<lambda>k. oR ! f k) [0 ..< knots_M inp],
                 map (\<lambda>k. oI ! f k) [0 ..< knots_M inp])"
    using run_ok_permuted [OF ok assms(7)]
    by (simp add: mexFunction_eq run_out_permuted [OF assms(7)] o)
  show ?thesis using a b c by simp
qed

theorem knots_are_independent_witness:
  "[3, 3] ! 0 = [3, 2 :: real] ! 0 \<and> [2, 2] ! 0 = [2, 3 :: real] ! 0 \<and>
   mexFunction (\<lambda>_ _. 7) I2 = Some ([3, 2], [2, 3]) \<and>
   mexFunction (\<lambda>_ _. 0) (I2\<lparr>knots := [PI, 0, 0, 0, 0, 0]\<rparr>) = Some ([2, 3], [3, 2])"
proof -
  have p: "permute_knots (\<lambda>k. 1 - k) 2 [0, PI, 0, 0, 0, 0] = [PI, 0, 0, 0, 0, 0]"
    by (simp add: permute_knots_def upt_rec)
  have f: "\<forall>k<knots_M I2. (\<lambda>k. 1 - k) k < knots_M I2" by (auto simp add: I2_sel)
  have i: "0 < knots_M I2" by (simp add: I2_sel)
  show ?thesis
    using knots_are_independent [OF mexFunction_I2 [of "\<lambda>_ _. 0"]
        mexFunction_I2_origin [of "\<lambda>_ _. 5"] i _ _ _ f, of "\<lambda>_ _. 7" "\<lambda>_ _. 0",
        unfolded I2_sel p]
    by (simp add: upt_2)
qed

text \<open>
  C7.  Take a well-formed input whose real grid is a unit impulse at the cell
  \<open>(jx, jy, jz)\<close> and whose imaginary grid is zero, and a knot \<open>i\<close> placed at the angular
  coordinate of that cell (under the program's wrap, the axis index \<open>j\<close> is the lattice
  point \<open>(j + N / 2) mod N\<close>, so that index \<open>N / 2\<close> is the angle 0), for which line 135
  computes the index of that lattice point on every axis.  Then the real output of knot
  \<open>i\<close> is the product of the three central taps \<open>E_3x[M_sp - 1]\<close>, \<open>E_3y[M_sp - 1]\<close>,
  \<open>E_3z[M_sp - 1]\<close> (0-based) and the imaginary output is 0, whatever the spreading
  widths.
\<close>

theorem impulse_at_knot_gives_central_taps:
  assumes "well_formed inp Nx Ny Nz"
    and "read_Scales (Scales inp) = Some p"
    and "i < knots_M inp"
    and "0 \<le> jx" "jx < Nx" "0 \<le> jy" "jy < Ny" "0 \<le> jz" "jz < Nz"
    and "knots inp ! i = cell_angle Nx jx"
    and "knots inp ! (i + knots_M inp) = cell_angle Ny jy"
    and "knots inp ! (i + 2 * knots_M inp) = cell_angle Nz jz"
    and "lattice_index (M_rx p) (knots inp ! i) = Some ((jx + Nx div 2) mod Nx)"
    and "lattice_index (M_ry p) (knots inp ! (i + knots_M inp)) = Some ((jy + Ny div 2) mod Ny)"
    and "lattice_index (M_rz p) (knots inp ! (i + 2 * knots_M inp)) =
           Some ((jz + Nz div 2) mod Nz)"
    and "ftaur inp = impulse (nat (Nx * Ny * Nz)) (nat (jx + Nx * jy + Nx * Ny * jz)) 1"
    and "ftaui inp = replicate (nat (Nx * Ny * Nz)) 0"
    and "mexFunction u inp = Some (oR, oI)"
  shows "oR ! i = E_3x inp ! nat (M_sp p - 1) * E_3y inp ! nat (M_sp p - 1)
                    * E_3z inp ! nat (M_sp p - 1) \<and>
         oI ! i = 0"
proof -
  have p: "p = the_params (Scales inp)" using read_Scales_Some [OF assms(2)] by simp
  have g: "grid_shape p Nx Ny Nz" unfolding p by (rule well_formed_shape [OF assms(1)])
  have sh: "M_rx p = of_int Nx" "M_ry p = of_int Ny" "M_rz p = of_int Nz"
    "even Nx" "even Ny" "even Nz" "0 < Nx" "0 < Ny" "0 < Nz" "1 \<le> M_sp p"
    using g by (simp_all add: grid_shape_def)
  note dom = well_formed_knots [OF assms(1,3)]
  define x where "x = knots inp ! i"
  define y where "y = knots inp ! (i + knots_M inp)"
  define z where "z = knots inp ! (i + 2 * knots_M inp)"
  have m: "ax_m (of_int Nx) x = (jx + Nx div 2) mod Nx"
    "ax_m (of_int Ny) y = (jy + Ny div 2) mod Ny"
    "ax_m (of_int Nz) z = (jz + Nz div 2) mod Nz"
    using assms(13-15) unfolding sh(1-3) x_def y_def z_def
    by (simp_all add: lattice_index_eq split: if_splits)
  have k: "x = of_int (ax_m (of_int Nx) x) * (2 * PI / of_int Nx)"
    "y = of_int (ax_m (of_int Ny) y) * (2 * PI / of_int Ny)"
    "z = of_int (ax_m (of_int Nz) z) * (2 * PI / of_int Nz)"
    unfolding m using assms(10-12) by (simp_all add: x_def y_def z_def cell_angle_def)
  have ok: "run_ok inp" and o: "oR = run_out inp (ftaur inp)" "oI = run_out inp (ftaui inp)"
    using mexFunction_Some [OF assms(18)] by simp_all
  have w: "0 \<in> set (window p)" using sh(10) by (simp add: window_def)
  define c0 where "c0 = nat (jx + Nx * jy + Nx * Ny * jz)"
  have c0: "int c0 = jx + Nx * jy + Nx * Ny * jz"
    using lin_bounds [OF assms(4-9)] by (simp add: c0_def)
  have hit: "cell p x y z 0 0 0 = int c0"
    unfolding cell_int [OF sh(1-6)] c0 m
    by (simp add: wrapped_cell_angle sh assms(4-9))
  have "oR ! i = knot_val_at inp p (impulse (nat (Nx * Ny * Nz)) c0 1) x y z"
    unfolding o run_out_nth [OF assms(3)] p [symmetric] assms(16) c0_def x_def y_def z_def ..
  also have "\<dots> = weight inp p x y z 0 0 0 * 1"
    by (rule knot_val_at_hit [OF g dom [folded x_def y_def z_def] w w w hit])
  also have "\<dots> = E_3x inp ! nat (M_sp p - 1) * E_3y inp ! nat (M_sp p - 1)
                    * E_3z inp ! nat (M_sp p - 1)"
    by (simp only: weight_centre [OF g k] mult_1_right)
  finally have R: "oR ! i = E_3x inp ! nat (M_sp p - 1) * E_3y inp ! nat (M_sp p - 1)
                    * E_3z inp ! nat (M_sp p - 1)" .
  have "\<forall>v\<in>set oI. v = 0"
    unfolding o using run_out_zero [OF ok, of "ftaui inp"] assms(17) by simp
  moreover have "oI ! i \<in> set oI" using assms(3) by (simp add: o)
  ultimately have "oI ! i = 0" by blast
  with R show ?thesis by simp
qed

theorem impulse_at_knot_gives_central_taps_witness:
  "mexFunction zeros I4 = Some ([24], [0])"
proof -
  have k: "knots I4 ! 0 = cell_angle 4 3" "knots I4 ! (0 + knots_M I4) = cell_angle 4 0"
    "knots I4 ! (0 + 2 * knots_M I4) = cell_angle 4 2"
    by (simp_all add: I4_def cell_angle_def)
  have m: "lattice_index (M_rx P4) (knots I4 ! 0) = Some ((3 + 4 div 2) mod 4)"
    "lattice_index (M_ry P4) (knots I4 ! (0 + knots_M I4)) = Some ((0 + 4 div 2) mod 4)"
    "lattice_index (M_rz P4) (knots I4 ! (0 + 2 * knots_M I4)) = Some ((2 + 4 div 2) mod 4)"
    by (simp_all add: I4_def P4_def lattice_index_eq ax_m_4_half_PI ax_m_4_PI int_ok_def)
  have g: "ftaur I4 = impulse (nat (4 * 4 * 4)) (nat (3 + 4 * 0 + 4 * 4 * 2)) 1"
    "ftaui I4 = replicate (nat (4 * 4 * 4)) 0"
    by (simp_all add: I4_def)
  have i: "0 < knots_M I4" by (simp add: I4_def)
  have "run_out I4 (ftaur I4) ! 0 =
          E_3x I4 ! nat (M_sp P4 - 1) * E_3y I4 ! nat (M_sp P4 - 1) * E_3z I4 ! nat (M_sp P4 - 1) \<and>
        run_out I4 (ftaui I4) ! 0 = 0"
    by (rule impulse_at_knot_gives_central_taps [OF well_formed_I4 read_Scales_I4 i
          _ _ _ _ _ _ k m g mexFunction_I4 [of zeros]]) simp_all
  then have "run_out I4 (ftaur I4) ! 0 = 24" "run_out I4 (ftaui I4) ! 0 = 0"
    by (simp_all add: I4_def P4_def)
  then have "run_out I4 (ftaur I4) = [24]" "run_out I4 (ftaui I4) = [0]"
    by (simp_all add: singleton_list I4_def)
  then show ?thesis by (simp add: mexFunction_I4)
qed

text \<open>
  C7, as the specification words it (for every knot placed at the angular coordinate of the
  impulse cell), fails on a 22 x 22 x 22 grid with half width 1 for the knot at the
  angle \<open>PI\<close> of the x axis, the coordinate of the cells with the x index 0: line 135
  computes the lattice index 10, not 11, the sub-cell offset is one lattice spacing, the
  impulse is read at the offset \<open>l1 = 1\<close>, and the output is
  \<open>E_3x[1] * exp (PI\<^sup>2 / 484) = 3 * exp (PI\<^sup>2 / 484)\<close>, not the product 2 of the central taps.
\<close>

theorem central_taps_counterexample:
  "read_Scales (Scales (J22 5566)) = Some P22 \<and>
   knots (J22 5566) = [cell_angle 22 0, cell_angle 22 11, cell_angle 22 11] \<and>
   ftaur (J22 5566) = impulse (nat (22 * 22 * 22)) (nat (0 + 22 * 11 + 22 * 22 * 11)) 1 \<and>
   lattice_index 22 (cell_angle 22 0) = Some 10 \<and> (0 + 22 div 2) mod 22 = (11 :: int) \<and>
   mexFunction zeros (J22 5566) = Some ([3 * exp (PI * PI / 484)], [0]) \<and>
   E_3x (J22 5566) ! nat (M_sp P22 - 1) * E_3y (J22 5566) ! nat (M_sp P22 - 1)
     * E_3z (J22 5566) ! nat (M_sp P22 - 1) = 2 \<and>
   2 < 3 * exp (PI * PI / 484)"
proof -
  have a: "cell_angle 22 0 = PI" "cell_angle 22 11 = 0"
    by (simp_all add: cell_angle_def)
  have "mexFunction zeros (J22 5566) = Some ([3 * exp (PI * PI / 484)], [0])"
    by (simp add: run_J22 run_J22_at exp_J22)
  then show ?thesis
    using exp_J22_gt
    by (simp add: read_Scales_J22 J22_sel a lattice_index_eq ax_m_22_PI int_ok_def P22_def)
qed

text \<open>
  C8.  Take a well-formed input whose grid has its only nonzero sample \<open>(vr, vi)\<close> at the
  cell \<open>c0\<close>, with positive spreading widths, and three placements of knot \<open>i\<close>.  The
  window of a knot is the set of the cells at the offsets \<open>1 - M_sp .. M_sp\<close> from the
  lattice point that line 135 computes for it.
  If the window of the knot contains the impulse cell, at the offsets \<open>l1, l2, l3\<close>, the
  output is the sample times the Gaussian envelope
  \<open>exp (- Dx\<^sup>2 / (4 * taux)) * exp (- Dy\<^sup>2 / (4 * tauy)) * exp (- Dz\<^sup>2 / (4 * tauz))\<close> of the
  distances \<open>D = d - l * (2 * PI / N)\<close> between the knot and the lattice point of the
  impulse, times the ratios of the three table entries to the Gaussian factors
  \<open>exp (- (l * (2 * PI / N))\<^sup>2 / (4 * tau))\<close> (the ratios are 1 for tables that hold these
  factors).  A second placement whose distances are at least as large on every axis, and
  whose table ratios are not larger in magnitude, gives outputs of at most the same
  magnitude.  A placement whose window does not contain the impulse cell gives the
  outputs 0.
\<close>

theorem impulse_response_decays:
  assumes "well_formed inp Nx Ny Nz"
    and "well_formed (inp\<lparr>knots := ks'\<rparr>) Nx Ny Nz"
    and "well_formed (inp\<lparr>knots := ks''\<rparr>) Nx Ny Nz"
    and "read_Scales (Scales inp) = Some p"
    and "0 < taux p" "0 < tauy p" "0 < tauz p"
    and "ftaur inp = impulse (nat (Nx * Ny * Nz)) c0 vr"
    and "ftaui inp = impulse (nat (Nx * Ny * Nz)) c0 vi"
    and "i < knots_M inp"
    and "mexFunction u inp = Some (oR, oI)"
    and "mexFunction u' (inp\<lparr>knots := ks'\<rparr>) = Some (oR', oI')"
    and "mexFunction u'' (inp\<lparr>knots := ks''\<rparr>) = Some (oR'', oI'')"
    and "l1 \<in> {1 - M_sp p .. M_sp p}" "l2 \<in> {1 - M_sp p .. M_sp p}"
      "l3 \<in> {1 - M_sp p .. M_sp p}"
    and "l1' \<in> {1 - M_sp p .. M_sp p}" "l2' \<in> {1 - M_sp p .. M_sp p}"
      "l3' \<in> {1 - M_sp p .. M_sp p}"
    and "window_cell Nx Ny Nz (knots inp) (knots_M inp) i l1 l2 l3 = int c0"
    and "window_cell Nx Ny Nz ks' (knots_M inp) i l1' l2' l3' = int c0"
    and "\<bar>knot_offset Nx (knots inp ! i) l1\<bar> \<le> \<bar>knot_offset Nx (ks' ! i) l1'\<bar>"
    and "\<bar>knot_offset Ny (knots inp ! (i + knots_M inp)) l2\<bar> \<le>
         \<bar>knot_offset Ny (ks' ! (i + knots_M inp)) l2'\<bar>"
    and "\<bar>knot_offset Nz (knots inp ! (i + 2 * knots_M inp)) l3\<bar> \<le>
         \<bar>knot_offset Nz (ks' ! (i + 2 * knots_M inp)) l3'\<bar>"
    and "\<bar>tables_dev inp p Nx Ny Nz l1' l2' l3'\<bar> \<le> \<bar>tables_dev inp p Nx Ny Nz l1 l2 l3\<bar>"
    and "\<forall>a\<in>{1 - M_sp p .. M_sp p}. \<forall>b\<in>{1 - M_sp p .. M_sp p}. \<forall>c\<in>{1 - M_sp p .. M_sp p}.
           window_cell Nx Ny Nz ks'' (knots_M inp) i a b c \<noteq> int c0"
  shows "oR ! i = vr * (envelope_at p Nx Ny Nz (knots inp) (knots_M inp) i l1 l2 l3
                          * tables_dev inp p Nx Ny Nz l1 l2 l3) \<and>
         oI ! i = vi * (envelope_at p Nx Ny Nz (knots inp) (knots_M inp) i l1 l2 l3
                          * tables_dev inp p Nx Ny Nz l1 l2 l3) \<and>
         oR' ! i = vr * (envelope_at p Nx Ny Nz ks' (knots_M inp) i l1' l2' l3'
                           * tables_dev inp p Nx Ny Nz l1' l2' l3') \<and>
         oI' ! i = vi * (envelope_at p Nx Ny Nz ks' (knots_M inp) i l1' l2' l3'
                           * tables_dev inp p Nx Ny Nz l1' l2' l3') \<and>
         \<bar>oR' ! i\<bar> \<le> \<bar>oR ! i\<bar> \<and> \<bar>oI' ! i\<bar> \<le> \<bar>oI ! i\<bar> \<and>
         oR'' ! i = 0 \<and> oI'' ! i = 0"
proof -
  have p: "p = the_params (Scales inp)" using read_Scales_Some [OF assms(4)] by simp
  have o: "oR = run_out inp (impulse (nat (Nx * Ny * Nz)) c0 vr)"
    "oI = run_out inp (impulse (nat (Nx * Ny * Nz)) c0 vi)"
    using mexFunction_Some [OF assms(11)] by (simp_all add: assms(8,9))
  have o': "oR' = run_out (inp\<lparr>knots := ks'\<rparr>) (impulse (nat (Nx * Ny * Nz)) c0 vr)"
    "oI' = run_out (inp\<lparr>knots := ks'\<rparr>) (impulse (nat (Nx * Ny * Nz)) c0 vi)"
    using mexFunction_Some [OF assms(12)] by (simp_all add: assms(8,9))
  have o'': "oR'' = run_out (inp\<lparr>knots := ks''\<rparr>) (impulse (nat (Nx * Ny * Nz)) c0 vr)"
    "oI'' = run_out (inp\<lparr>knots := ks''\<rparr>) (impulse (nat (Nx * Ny * Nz)) c0 vi)"
    using mexFunction_Some [OF assms(13)] by (simp_all add: assms(8,9))
  define e where "e = envelope_at p Nx Ny Nz (knots inp) (knots_M inp) i l1 l2 l3"
  define e' where "e' = envelope_at p Nx Ny Nz ks' (knots_M inp) i l1' l2' l3'"
  define t where "t = tables_dev inp p Nx Ny Nz l1 l2 l3"
  define t' where "t' = tables_dev inp p Nx Ny Nz l1' l2' l3'"
  have H: "run_out inp (impulse (nat (Nx * Ny * Nz)) c0 v) ! i = v * (e * t)" for v
    unfolding e_def t_def p
    by (rule impulse_run_envelope [OF assms(1,10) assms(14-16) [unfolded p] assms(20)])
  have H': "run_out (inp\<lparr>knots := ks'\<rparr>) (impulse (nat (Nx * Ny * Nz)) c0 v) ! i =
           v * (e' * t')" for v
    using impulse_run_envelope [OF assms(2), of i l1' l2' l3' c0 v]
      assms(10,17-19,21) by (simp add: p e'_def t'_def tables_dev_def)
  have M: "run_out (inp\<lparr>knots := ks''\<rparr>) (impulse (nat (Nx * Ny * Nz)) c0 v) ! i = 0" for v
    using impulse_run_miss [OF assms(3), of i c0 v] assms(10,26) by (simp add: p)
  have le: "e' \<le> e"
    unfolding e_def e'_def envelope_at_def by (rule gauss_env_mono [OF assms(5-7) assms(22-24)])
  have pos: "0 < e'" "0 < e"
    by (simp_all add: e_def e'_def envelope_at_def gauss_env_pos)
  have tt: "\<bar>t'\<bar> \<le> \<bar>t\<bar>" using assms(25) by (simp add: t_def t'_def)
  have "e' * \<bar>t'\<bar> \<le> e * \<bar>t\<bar>"
    using le tt pos by (intro mult_mono) simp_all
  then have ab: "\<bar>v * (e' * t')\<bar> \<le> \<bar>v * (e * t)\<bar>" for v
    using pos by (simp add: abs_mult mult_left_mono)
  show ?thesis
    unfolding o o' o'' H H' M e_def [symmetric] e'_def [symmetric] t_def [symmetric]
      t'_def [symmetric]
    using ab by simp
qed

theorem impulse_response_decays_witness:
  "mexFunction zeros I5 = Some ([3], [- 2]) \<and>
   mexFunction zeros (I5\<lparr>knots := [1, 0, 0]\<rparr>) =
     Some ([3 * exp (- 1 / 4)], [- 2 * exp (- 1 / 4)]) \<and>
   \<bar>3 * exp (- 1 / 4)\<bar> \<le> \<bar>3 :: real\<bar> \<and>
   mexFunction zeros (I5\<lparr>knots := [PI, 0, 0]\<rparr>) = Some ([0], [0])"
proof -
  have tau: "0 < taux P5" "0 < tauy P5" "0 < tauz P5" by (simp_all add: P5_def)
  have grid: "ftaur I5 = impulse (nat (4 * 4 * 4)) 42 3"
    "ftaui I5 = impulse (nat (4 * 4 * 4)) 42 (- 2)"
    by (simp_all add: I5_def)
  have i: "0 < knots_M I5" by (simp add: I5_def)
  have w: "0 \<in> {1 - M_sp P5 .. M_sp P5}" by (simp add: P5_def)
  have k: "knots I5 = [0, 0, 0]" "knots_M I5 = 1" by (simp_all add: I5_def)
  have hit: "window_cell 4 4 4 (knots I5) (knots_M I5) 0 0 0 0 = int 42"
    "window_cell 4 4 4 [1, 0, 0] (knots_M I5) 0 0 0 0 = int 42"
    by (simp_all add: window_cell_def spec_cell_def k ax_m_4_1 wrapped_4)
  have far: "\<bar>knot_offset 4 (knots I5 ! 0) 0\<bar> \<le> \<bar>knot_offset 4 ([1, 0, 0] ! 0) 0\<bar>"
    "\<bar>knot_offset 4 (knots I5 ! (0 + knots_M I5)) 0\<bar> \<le>
     \<bar>knot_offset 4 ([1, 0, 0] ! (0 + knots_M I5)) 0\<bar>"
    "\<bar>knot_offset 4 (knots I5 ! (0 + 2 * knots_M I5)) 0\<bar> \<le>
     \<bar>knot_offset 4 ([1, 0, 0] ! (0 + 2 * knots_M I5)) 0\<bar>"
    by (simp_all add: knot_offset_def k spec_d_I5)
  have dev: "\<bar>tables_dev I5 P5 4 4 4 0 0 0\<bar> \<le> \<bar>tables_dev I5 P5 4 4 4 0 0 0\<bar>"
    by simp
  have miss: "\<forall>a\<in>{1 - M_sp P5 .. M_sp P5}. \<forall>b\<in>{1 - M_sp P5 .. M_sp P5}.
      \<forall>c\<in>{1 - M_sp P5 .. M_sp P5}.
        window_cell 4 4 4 [PI, 0, 0] (knots_M I5) 0 a b c \<noteq> int 42"
  proof (intro ballI)
    fix a b c :: int
    assume "a \<in> {1 - M_sp P5 .. M_sp P5}" "b \<in> {1 - M_sp P5 .. M_sp P5}"
      "c \<in> {1 - M_sp P5 .. M_sp P5}"
    then have "a = 0 \<or> a = 1" "b = 0 \<or> b = 1" "c = 0 \<or> c = 1"
      by (auto simp add: P5_def)
    then show "window_cell 4 4 4 [PI, 0, 0] (knots_M I5) 0 a b c \<noteq> int 42"
      by (auto simp add: window_cell_def spec_cell_def k ax_m_4_PI wrapped_4)
  qed
  note t = impulse_response_decays [OF well_formed_I5 read_Scales_I5 tau grid i
      mexFunction_wf [OF well_formed_I5(1), of zeros]
      mexFunction_wf [OF well_formed_I5(2), of zeros]
      mexFunction_wf [OF well_formed_I5(3), of zeros]
      w w w w w w hit far dev miss]
  have e: "envelope_at P5 4 4 4 (knots I5) (knots_M I5) 0 0 0 0 = 1"
    "envelope_at P5 4 4 4 [1, 0, 0] (knots_M I5) 0 0 0 0 = exp (- 1 / 4)"
    by (simp_all add: envelope_at_def gauss_env_def knot_offset_def k spec_d_I5 P5_def)
  have l: "length (run_out I5 g) = 1" "length (run_out (I5\<lparr>knots := ks\<rparr>) g) = 1" for g ks
    by (simp_all add: k)
  have r: "run_out I5 (ftaur I5) ! 0 = 3" "run_out I5 (ftaui I5) ! 0 = - 2"
    "run_out (I5\<lparr>knots := [1, 0, 0]\<rparr>) (ftaur I5) ! 0 = 3 * exp (- 1 / 4)"
    "run_out (I5\<lparr>knots := [1, 0, 0]\<rparr>) (ftaui I5) ! 0 = - 2 * exp (- 1 / 4)"
    "run_out (I5\<lparr>knots := [PI, 0, 0]\<rparr>) (ftaur I5) ! 0 = 0"
    "run_out (I5\<lparr>knots := [PI, 0, 0]\<rparr>) (ftaui I5) ! 0 = 0"
    using t by (simp_all add: e tables_dev_I5)
  have m: "\<bar>3 * exp (- 1 / 4)\<bar> \<le> \<bar>3 :: real\<bar>"
    using t by (simp add: e tables_dev_I5)
  note s = singleton_list [OF l(1) r(1)] singleton_list [OF l(1) r(2)]
    singleton_list [OF l(2) r(3)] singleton_list [OF l(2) r(4)]
    singleton_list [OF l(2) r(5)] singleton_list [OF l(2) r(6)]
  show ?thesis
    using m
    by (simp add: mexFunction_wf [OF well_formed_I5(1)] mexFunction_wf [OF well_formed_I5(2)]
        mexFunction_wf [OF well_formed_I5(3)] s)
qed

text \<open>
  C8, as the specification words it (the output is exactly zero once the impulse cell lies
  outside the offsets \<open>1 - M_sp .. M_sp\<close> from the knot's nearest lattice point
  \<open>floor (N * knot / (2 * PI))\<close>), fails on a 22 x 22 x 22 grid with half width 1 for the
  knot \<open>(PI, 0, 0)\<close>: its nearest lattice point on the x axis is 11, the cells at the offsets
  0 and 1 from it have the x indices 0 and 1, and the impulse sits at the offset \<open>- 1\<close>, at
  the x index 21.  The program computes the lattice index 10, reads the impulse at the
  offset 0 and returns \<open>2 * exp (- PI\<^sup>2 / 484)\<close>, which is not zero.
\<close>

theorem impulse_outside_window_counterexample:
  "read_Scales (Scales (J22 5587)) = Some P22 \<and> knots (J22 5587) = [PI, 0, 0] \<and>
   ftaur (J22 5587) = impulse 10648 5587 1 \<and>
   spec_m 22 PI = 11 \<and> spec_m 22 0 = 0 \<and>
   spec_cell 22 22 22 (spec_m 22 PI) (spec_m 22 0) (spec_m 22 0) (- 1) 0 0 = 5587 \<and>
   - 1 \<notin> {1 - M_sp P22 .. M_sp P22} \<and>
   wrapped 22 (spec_m 22 PI + 0) = 0 \<and> wrapped 22 (spec_m 22 PI + 1) = 1 \<and>
   wrapped 22 (spec_m 22 PI + - 1) = 21 \<and>
   mexFunction zeros (J22 5587) = Some ([2 * exp (- (PI * PI / 484))], [0]) \<and>
   2 * exp (- (PI * PI / 484)) \<noteq> 0"
proof -
  have "mexFunction zeros (J22 5587) = Some ([2 * exp (- (PI * PI / 484))], [0])"
    by (simp add: run_J22 run_J22_below)
  then show ?thesis
    by (simp add: read_Scales_J22 J22_sel spec_m_22 spec_cell_def wrapped_22 P22_def)
qed

end
